theory Spec2Isabelle
  imports Main
begin

section \<open>Data model of \<^verbatim>\<open>server/mortal-coil.js\<close>\<close>

text \<open>
  A cell of the board, the object \<^verbatim>\<open>{ blocked, visited }\<close> that \<^verbatim>\<open>parseBoard\<close> pushes.
\<close>

record cell =
  blocked :: bool
  visited :: bool

text \<open>
  One entry of \<^verbatim>\<open>mortal-coil-levels.json\<close>. The file itself is not part of the sources, so
  the catalogue \<^verbatim>\<open>levels\<close> is a parameter of every operation that reads it: a partial map
  from the level id to the entry.
\<close>

record level =
  width :: int
  height :: int
  boardStr :: string

type_synonym levels = "int \<Rightarrow> level option"

text \<open>The global \<^verbatim>\<open>gameState\<close> object (lines 20-32).\<close>

record gameState =
  levelId :: int
  board :: "cell list list"
  width :: int
  height :: int
  playerX :: int
  playerY :: int
  started :: bool
  finished :: bool
  won :: bool
  visitedCount :: int
  totalCells :: int

definition initialState :: gameState where
  "initialState = \<lparr> levelId = 0, board = [], width = 0, height = 0,
      playerX = - 1, playerY = - 1, started = False, finished = False, won = False,
      visitedCount = 0, totalCells = 0 \<rparr>"

text \<open>
  The process state: the game and the snapshots handed to \<^verbatim>\<open>broadcastState\<close> so far
  (oldest first). \<^verbatim>\<open>broadcastState\<close> serialises the current \<^verbatim>\<open>gameState\<close> for every
  open socket; the model records the snapshot.
\<close>

record server =
  game :: gameState
  broadcasts :: "gameState list"

definition broadcastState :: "server \<Rightarrow> server" where
  "broadcastState s = s\<lparr>broadcasts := broadcasts s @ [game s]\<rparr>"

text \<open>
  What the two mutating functions return. A \<^verbatim>\<open>{ success: false, message }\<close> object is
  \<open>Failure\<close> of the case that produced it (\<open>message\<close> gives the text of the source);
  \<open>TypeError\<close> is the exception JavaScript throws when a property of \<^verbatim>\<open>undefined\<close> is
  read, which leaves the function without a return value.
\<close>

datatype failure =
  NotActive | InvalidDirection | NoMovement | AlreadyStarted | OutOfBounds | BlockedCell

fun message :: "failure \<Rightarrow> string" where
  "message NotActive = ''Game not started or already finished''"
| "message InvalidDirection = ''Invalid direction. Use: up, down, left, right''"
| "message NoMovement = ''Cannot move in that direction''"
| "message AlreadyStarted = ''Game already started''"
| "message OutOfBounds = ''Invalid start position''"
| "message BlockedCell = ''Cannot start on a blocked cell''"

datatype reply =
  Failure failure
| GameStarted
| Moved bool bool int int int int
    \<comment> \<open>\<^verbatim>\<open>finished, won, playerX, playerY, visitedCount, totalCells\<close>\<close>
| TypeError

section \<open>Boards\<close>

text \<open>\<^verbatim>\<open>boardStr[i]\<close>: the character at \<open>i\<close>, \<^verbatim>\<open>undefined\<close> (\<open>None\<close>) past the end.\<close>

definition charAt :: "string \<Rightarrow> int \<Rightarrow> char option" where
  "charAt str i = (if 0 \<le> i \<and> i < int (length str) then Some (str ! nat i) else None)"

text \<open>
  \<^verbatim>\<open>parseBoard\<close> (lines 35-49): \<open>height\<close> rows of \<open>width\<close> cells, the cell at \<open>(x, y)\<close> read
  from index \<open>y * width + x\<close>. \<open>[0..n - 1]\<close> is the list of the loop variable's values.
\<close>

definition parseCell :: "string \<Rightarrow> int \<Rightarrow> int \<Rightarrow> int \<Rightarrow> cell" where
  "parseCell str w y x =
     (let char = charAt str (y * w + x)
      in \<lparr> blocked = (char = Some CHR ''X''), visited = (char = Some CHR ''X'') \<rparr>)"

definition parseBoard :: "string \<Rightarrow> int \<Rightarrow> int \<Rightarrow> cell list list" where
  "parseBoard str w h = map (\<lambda>y. map (\<lambda>x. parseCell str w y x) [0..w - 1]) [0..h - 1]"

text \<open>\<^verbatim>\<open>countPlayableCells\<close> (lines 52-60): the two nested \<^verbatim>\<open>for ... of\<close> loops.\<close>

definition countPlayableCells :: "cell list list \<Rightarrow> int" where
  "countPlayableCells b =
     fold (\<lambda>row count. fold (\<lambda>c count. if \<not> blocked c then count + 1 else count) row count) b 0"

text \<open>
  \<^verbatim>\<open>gameState.board[y][x]\<close> followed by a read of a property of the result. \<open>None\<close> stands
  for the \<open>TypeError\<close> of JavaScript: either the row is \<^verbatim>\<open>undefined\<close> and indexing it
  throws, or the cell is \<^verbatim>\<open>undefined\<close> and reading \<^verbatim>\<open>.blocked\<close> throws.
\<close>

definition cellAt :: "cell list list \<Rightarrow> int \<Rightarrow> int \<Rightarrow> cell option" where
  "cellAt b x y =
     (if 0 \<le> y \<and> y < int (length b) then
        (let row = b ! nat y
         in if 0 \<le> x \<and> x < int (length row) then Some (row ! nat x) else None)
      else None)"

text \<open>\<^verbatim>\<open>cell.visited = true\<close> for the cell object found at \<open>(x, y)\<close>.\<close>

definition markVisited :: "cell list list \<Rightarrow> int \<Rightarrow> int \<Rightarrow> cell list list" where
  "markVisited b x y =
     b[nat y := (b ! nat y)[nat x := (b ! nat y ! nat x)\<lparr>visited := True\<rparr>]]"

section \<open>Loading a level\<close>

text \<open>\<^verbatim>\<open>loadLevel\<close> (lines 63-82); the boolean is its return value.\<close>

definition loadLevel :: "levels \<Rightarrow> int \<Rightarrow> gameState \<Rightarrow> bool \<times> gameState" where
  "loadLevel levels lid g =
     (case levels lid of
        None \<Rightarrow> (False, g)
      | Some lv \<Rightarrow>
          (let b = parseBoard (boardStr lv) (level.width lv) (level.height lv)
           in (True, g\<lparr> levelId := lid, width := level.width lv, height := level.height lv,
                        board := b, playerX := - 1, playerY := - 1, started := False,
                        finished := False, won := False, visitedCount := 0,
                        totalCells := countPlayableCells b \<rparr>)))"

section \<open>Directions\<close>

text \<open>
  The value of \<^verbatim>\<open>{ up: .., down: .., left: .., right: .. }[direction]\<close>. An object literal
  inherits from \<^verbatim>\<open>Object.prototype\<close>, so a key that is not one of its own four is still
  found when it names a property of the prototype, and the value is then a function or an
  object, not \<^verbatim>\<open>undefined\<close>.
\<close>

datatype jsval = Num int | Undefined | Inherited

definition object_prototype_keys :: "string list" where
  "object_prototype_keys =
     [''constructor'', ''__proto__'', ''hasOwnProperty'', ''isPrototypeOf'',
      ''propertyIsEnumerable'', ''toLocaleString'', ''toString'', ''valueOf'',
      ''__defineGetter__'', ''__defineSetter__'', ''__lookupGetter__'', ''__lookupSetter__'']"

definition property :: "(string \<times> int) list \<Rightarrow> string \<Rightarrow> jsval" where
  "property obj key =
     (case map_of obj key of
        Some n \<Rightarrow> Num n
      | None \<Rightarrow> if key \<in> set object_prototype_keys then Inherited else Undefined)"

definition dx_of :: "string \<Rightarrow> jsval" where
  "dx_of direction = property [(''up'', 0), (''down'', 0), (''left'', - 1), (''right'', 1)] direction"

definition dy_of :: "string \<Rightarrow> jsval" where
  "dy_of direction = property [(''up'', - 1), (''down'', 1), (''left'', 0), (''right'', 0)] direction"

section \<open>Moves\<close>

text \<open>
  \<^verbatim>\<open>isValidMove\<close> (lines 99-118). \<open>None\<close> is a thrown \<open>TypeError\<close>. With both offsets inherited
  from the prototype, \<^verbatim>\<open>playerX + dx\<close> is a string, each of the four comparisons of the
  bounds check is a comparison with \<^verbatim>\<open>NaN\<close> and false, \<^verbatim>\<open>board[newY]\<close> is \<^verbatim>\<open>undefined\<close>
  and indexing it throws. The two tables have the same keys (lemma \<open>dx_dy_same_kind\<close>), so
  one offset is a number exactly when the other is.
\<close>

definition isValidMove :: "string \<Rightarrow> gameState \<Rightarrow> bool option" where
  "isValidMove direction g =
     (if \<not> started g \<or> finished g then Some False
      else if dx_of direction = Undefined \<or> dy_of direction = Undefined then Some False
      else case (dx_of direction, dy_of direction) of
        (Num dx, Num dy) \<Rightarrow>
          (let newX = playerX g + dx; newY = playerY g + dy
           in if newX < 0 \<or> newX \<ge> width g \<or> newY < 0 \<or> newY \<ge> height g then Some False
              else (case cellAt (board g) newX newY of
                      None \<Rightarrow> None
                    | Some c \<Rightarrow> Some (\<not> blocked c \<and> \<not> visited c)))
      | _ \<Rightarrow> None)"

text \<open>
  \<^verbatim>\<open>Array.prototype.some\<close> with a callback that may throw: the elements are tried in order,
  the first \<^verbatim>\<open>true\<close> ends the scan, an exception leaves it.
\<close>

fun some :: "('a \<Rightarrow> bool option) \<Rightarrow> 'a list \<Rightarrow> bool option" where
  "some f [] = Some False"
| "some f (x # xs) =
     (case f x of
        None \<Rightarrow> None
      | Some True \<Rightarrow> Some True
      | Some False \<Rightarrow> some f xs)"

text \<open>
  Two notions for the proofs: the board with the cell at \<open>(x, y)\<close> replaced, and the number
  of cells that satisfy a predicate. The number of cells not yet visited is the measure of
  the slide: every iteration takes one away, which is why the \<^verbatim>\<open>while (true)\<close> loop ends.
\<close>

definition setCell :: "cell list list \<Rightarrow> int \<Rightarrow> int \<Rightarrow> cell \<Rightarrow> cell list list" where
  "setCell b x y v = b[nat y := (b ! nat y)[nat x := v]]"

definition count_cells :: "(cell \<Rightarrow> bool) \<Rightarrow> cell list list \<Rightarrow> nat" where
  "count_cells P b = sum_list (map (\<lambda>row. length (filter P row)) b)"

definition unvisited :: "cell list list \<Rightarrow> nat" where
  "unvisited b = count_cells (\<lambda>c. \<not> visited c) b"

text \<open>
  The \<^verbatim>\<open>while (true)\<close> loop of \<^verbatim>\<open>executeMove\<close> (lines 136-157) for numeric offsets. It
  returns the state it has reached, the flag \<^verbatim>\<open>moved\<close>, and whether it left by \<^verbatim>\<open>break\<close>
  (\<open>True\<close>) or by a thrown \<open>TypeError\<close> (\<open>False\<close>); the mutations made before an exception
  stay.
\<close>

function slide :: "int \<Rightarrow> int \<Rightarrow> gameState \<Rightarrow> bool \<Rightarrow> bool \<times> gameState \<times> bool" where
  "slide dx dy g moved =
     (let newX = playerX g + dx; newY = playerY g + dy
      in if newX < 0 \<or> newX \<ge> width g \<or> newY < 0 \<or> newY \<ge> height g then (True, g, moved)
         else (case cellAt (board g) newX newY of
                 None \<Rightarrow> (False, g, moved)
               | Some c \<Rightarrow>
                   if blocked c \<or> visited c then (True, g, moved)
                   else slide dx dy
                          (g\<lparr> playerX := newX, playerY := newY,
                              board := markVisited (board g) newX newY,
                              visitedCount := visitedCount g + 1 \<rparr>) True))"
  by pat_completeness auto

text \<open>
  \<^verbatim>\<open>executeMove\<close> (lines 121-187). After the guards the loop runs; when both offsets are
  inherited from the prototype its first iteration throws before any assignment (see
  \<open>isValidMove\<close>). The scan for a remaining move runs \<^verbatim>\<open>isValidMove\<close> on the state as the
  win check has left it.
\<close>

definition executeMove :: "string \<Rightarrow> server \<Rightarrow> reply \<times> server" where
  "executeMove direction s =
     (let g = game s
      in if \<not> started g \<or> finished g then (Failure NotActive, s)
         else if dx_of direction = Undefined \<or> dy_of direction = Undefined
           then (Failure InvalidDirection, s)
         else case (dx_of direction, dy_of direction) of
           (Num dx, Num dy) \<Rightarrow>
             (case slide dx dy g False of
                (False, g1, moved) \<Rightarrow> (TypeError, s\<lparr>game := g1\<rparr>)
              | (True, g1, moved) \<Rightarrow>
                  if \<not> moved then (Failure NoMovement, s\<lparr>game := g1\<rparr>)
                  else
                    (let g2 = (if visitedCount g1 = totalCells g1
                               then g1\<lparr>finished := True, won := True\<rparr> else g1)
                     in case some (\<lambda>dir. isValidMove dir g2) [''up'', ''down'', ''left'', ''right''] of
                          None \<Rightarrow> (TypeError, s\<lparr>game := g2\<rparr>)
                        | Some canMove \<Rightarrow>
                            (let g3 = (if \<not> canMove \<and> \<not> won g2
                                       then g2\<lparr>finished := True, won := False\<rparr> else g2)
                             in (Moved (finished g3) (won g3) (playerX g3) (playerY g3)
                                   (visitedCount g3) (totalCells g3),
                                 broadcastState (s\<lparr>game := g3\<rparr>)))))
         | _ \<Rightarrow> (TypeError, s))"

section \<open>Starting\<close>

text \<open>\<^verbatim>\<open>startGame\<close> (lines 190-213).\<close>

definition startGame :: "int \<Rightarrow> int \<Rightarrow> server \<Rightarrow> reply \<times> server" where
  "startGame x y s =
     (let g = game s
      in if started g then (Failure AlreadyStarted, s)
         else if x < 0 \<or> x \<ge> width g \<or> y < 0 \<or> y \<ge> height g then (Failure OutOfBounds, s)
         else case cellAt (board g) x y of
           None \<Rightarrow> (TypeError, s)
         | Some c \<Rightarrow>
             if blocked c then (Failure BlockedCell, s)
             else (GameStarted,
                   broadcastState
                     (s\<lparr>game := g\<lparr> playerX := x, playerY := y, started := True,
                                   board := markVisited (board g) x y,
                                   visitedCount := 1 \<rparr>\<rparr>)))"

section \<open>Routes\<close>

text \<open>
  The handlers of \<^verbatim>\<open>POST /api/level/:id\<close> (lines 233-241) and \<^verbatim>\<open>POST /api/reset\<close>
  (lines 262-266). The reset handler ignores what \<^verbatim>\<open>loadLevel\<close> returns, broadcasts and
  answers with success in every case.
\<close>

definition api_level :: "levels \<Rightarrow> int \<Rightarrow> server \<Rightarrow> bool \<times> server" where
  "api_level levels lid s =
     (case loadLevel levels lid (game s) of
        (True, g) \<Rightarrow> (True, broadcastState (s\<lparr>game := g\<rparr>))
      | (False, g) \<Rightarrow> (False, s\<lparr>game := g\<rparr>))"

definition api_reset :: "levels \<Rightarrow> server \<Rightarrow> server" where
  "api_reset levels s =
     broadcastState (s\<lparr>game := snd (loadLevel levels (levelId (game s)) (game s))\<rparr>)"

text \<open>The server after the module has run: \<^verbatim>\<open>loadLevel(0)\<close> on the initial object (line 284).\<close>

definition initialServer :: "levels \<Rightarrow> server" where
  "initialServer levels =
     \<lparr> game = snd (loadLevel levels 0 initialState), broadcasts = [] \<rparr>"

section \<open>Notions for the statements\<close>

text \<open>
  The four direction tokens; a state whose board has \<open>height\<close> rows of \<open>width\<close> cells (every
  board \<^verbatim>\<open>parseBoard\<close> builds has); the test of the slide on a target cell (lines 141-149):
  in bounds, not blocked and not visited; and the state after \<open>k\<close> cells have been entered
  one after the other along \<open>(dx, dy)\<close>.
\<close>

definition cardinal :: "string \<Rightarrow> bool" where
  "cardinal direction \<longleftrightarrow> direction \<in> set [''up'', ''down'', ''left'', ''right'']"

definition wellformed :: "gameState \<Rightarrow> bool" where
  "wellformed g \<longleftrightarrow>
     length (board g) = nat (height g) \<and> (\<forall>row \<in> set (board g). length row = nat (width g))"

definition enterable :: "gameState \<Rightarrow> int \<Rightarrow> int \<Rightarrow> bool" where
  "enterable g x y \<longleftrightarrow>
     0 \<le> x \<and> x < width g \<and> 0 \<le> y \<and> y < height g \<and>
     (case cellAt (board g) x y of None \<Rightarrow> False | Some c \<Rightarrow> \<not> blocked c \<and> \<not> visited c)"

definition entered :: "gameState \<Rightarrow> int \<Rightarrow> int \<Rightarrow> nat \<Rightarrow> gameState" where
  "entered g dx dy k =
     g\<lparr> playerX := playerX g + int k * dx, playerY := playerY g + int k * dy,
        board := fold (\<lambda>i b. markVisited b (playerX g + int i * dx) (playerY g + int i * dy))
                   [1..<Suc k] (board g),
        visitedCount := visitedCount g + int k \<rparr>"

text \<open>
  The list the scan for a remaining move goes through; the predicate the specification
  calls \<^verbatim>\<open>canStepTo\<close>: the single step in a direction lands in bounds on a cell that is
  neither blocked nor visited; and what lines 163-174 make of the state the loop has left
  after at least one step: won when the count is complete, otherwise stuck when no
  direction can be stepped to.
\<close>

definition directions :: "string list" where
  "directions = [''up'', ''down'', ''left'', ''right'']"

definition canStepTo :: "string \<Rightarrow> gameState \<Rightarrow> bool" where
  "canStepTo direction g =
     (case (dx_of direction, dy_of direction) of
        (Num dx, Num dy) \<Rightarrow> enterable g (playerX g + dx) (playerY g + dy)
      | _ \<Rightarrow> False)"

definition settle :: "gameState \<Rightarrow> gameState" where
  "settle g =
     (if visitedCount g = totalCells g then g\<lparr>finished := True, won := True\<rparr>
      else if \<not> (\<exists>d \<in> set directions. canStepTo d g) \<and> \<not> won g
        then g\<lparr>finished := True, won := False\<rparr>
      else g)"

text \<open>
  A small catalogue for concrete runs: level 0 is the row \<^verbatim>\<open>...\<close>, level 1 the row
  \<^verbatim>\<open>.X.\<close>, level 2 a single open cell, level 3 a 3 by 2 board with one blocked cell,
  level 4 a 3 by 3 board whose only open cell is the centre. \<open>demo_loaded\<close> is the server
  with a level freshly loaded, \<open>demo_started\<close> the one after a start on it.
\<close>

definition demo_levels :: levels where
  "demo_levels =
     [0 \<mapsto> \<lparr> level.width = 3, level.height = 1, boardStr = ''...'' \<rparr>,
      1 \<mapsto> \<lparr> level.width = 3, level.height = 1, boardStr = ''.X.'' \<rparr>,
      2 \<mapsto> \<lparr> level.width = 1, level.height = 1, boardStr = ''.'' \<rparr>,
      3 \<mapsto> \<lparr> level.width = 3, level.height = 2, boardStr = ''...X..'' \<rparr>,
      4 \<mapsto> \<lparr> level.width = 3, level.height = 3, boardStr = ''XXXX.XXXX'' \<rparr>]"

definition demo_loaded :: "int \<Rightarrow> server" where
  "demo_loaded lid = \<lparr> game = snd (loadLevel demo_levels lid initialState), broadcasts = [] \<rparr>"

definition demo_started :: "int \<Rightarrow> int \<Rightarrow> int \<Rightarrow> server" where
  "demo_started lid x y = snd (startGame x y (demo_loaded lid))"

text \<open>
  What holds of the game in every state the server reaches (lemma \<open>consistent_reachable\<close>): the
  board has the declared shape, a won game is finished, a finished game was started, and
  \<^verbatim>\<open>visitedCount\<close> is the number of open cells that are visited, none before the start.
\<close>

definition consistent :: "gameState \<Rightarrow> bool" where
  "consistent g \<longleftrightarrow>
     wellformed g \<and> (won g \<longrightarrow> finished g) \<and> (finished g \<longrightarrow> started g) \<and>
     visitedCount g = int (count_cells (\<lambda>c. visited c \<and> \<not> blocked c) (board g)) \<and>
     (\<not> started g \<longrightarrow> visitedCount g = 0)"

text \<open>
  The calls the route handlers make on the functions above, and a run of the server over a
  list of them. An exception thrown inside a handler is caught by the framework, and the
  server goes on with the state as it is.
\<close>

datatype request = Load int | Start int int | Move string | Reset

fun handle :: "levels \<Rightarrow> request \<Rightarrow> server \<Rightarrow> server" where
  "handle levels (Load lid) s = snd (api_level levels lid s)"
| "handle levels (Start x y) s = snd (startGame x y s)"
| "handle levels (Move direction) s = snd (executeMove direction s)"
| "handle levels Reset s = api_reset levels s"

definition run :: "levels \<Rightarrow> request list \<Rightarrow> server \<Rightarrow> server" where
  "run levels reqs s = fold (handle levels) reqs s"

text \<open>
  A game on a board with exactly one open cell, the player on it once the game has started;
  and the requests that keep the server on level \<open>lid\<close>.
\<close>

definition lone_cell :: "gameState \<Rightarrow> bool" where
  "lone_cell g \<longleftrightarrow>
     wellformed g \<and> \<not> finished g \<and> \<not> won g \<and>
     count_cells (\<lambda>c. \<not> blocked c) (board g) = 1 \<and>
     (started g \<longrightarrow> (\<exists>c. cellAt (board g) (playerX g) (playerY g) = Some c \<and> \<not> blocked c))"

definition on_level :: "int \<Rightarrow> request \<Rightarrow> bool" where
  "on_level lid r = (case r of Load i \<Rightarrow> i = lid | _ \<Rightarrow> True)"

section \<open>The slide ends\<close>

text \<open>
  Replacing one cell changes the number of cells that satisfy a predicate by what the old
  and the new cell contribute; marking an unvisited cell therefore leaves one cell less to
  visit, and the loop is total.
\<close>

lemma filter_update_count:
  "i < length xs \<Longrightarrow>
     length (filter P (xs[i := v])) + of_bool (P (xs ! i)) = length (filter P xs) + of_bool (P v)"
proof (induction xs arbitrary: i)
  case Nil
  then show ?case by simp
next
  case (Cons a xs)
  show ?case
  proof (cases i)
    case 0
    then show ?thesis by simp
  next
    case (Suc k)
    with Cons.prems have "k < length xs" by simp
    from Cons.IH [OF this] Suc show ?thesis by simp
  qed
qed

lemma sum_list_update_nat:
  fixes ns :: "nat list"
  shows "j < length ns \<Longrightarrow> sum_list (ns[j := m]) + ns ! j = sum_list ns + m"
proof (induction ns arbitrary: j)
  case Nil
  then show ?case by simp
next
  case (Cons a ns)
  show ?case
  proof (cases j)
    case 0
    then show ?thesis by simp
  next
    case (Suc k)
    with Cons.prems have "k < length ns" by simp
    from Cons.IH [OF this] Suc show ?thesis by simp
  qed
qed

lemma cellAt_SomeD:
  "cellAt b x y = Some c \<Longrightarrow>
     0 \<le> y \<and> nat y < length b \<and> 0 \<le> x \<and> nat x < length (b ! nat y) \<and> c = b ! nat y ! nat x"
  by (auto simp: cellAt_def Let_def split: if_splits)

lemma count_cells_setCell:
  assumes "cellAt b x y = Some c"
  shows "count_cells P (setCell b x y v) + of_bool (P c) = count_cells P b + of_bool (P v)"
proof -
  from cellAt_SomeD [OF assms] have y: "nat y < length b"
    and x: "nat x < length (b ! nat y)" and c: "c = b ! nat y ! nat x"
    by simp_all
  let ?ns = "map (\<lambda>row. length (filter P row)) b"
  let ?row = "(b ! nat y)[nat x := v]"
  have row: "length (filter P ?row) + of_bool (P c) = length (filter P (b ! nat y)) + of_bool (P v)"
    using filter_update_count [OF x, of P v] c by simp
  have "sum_list (?ns[nat y := length (filter P ?row)]) + ?ns ! nat y
      = sum_list ?ns + length (filter P ?row)"
    using y by (intro sum_list_update_nat) simp
  with row y show ?thesis
    by (simp add: count_cells_def setCell_def map_update)
qed

lemma markVisited_setCell:
  "markVisited b x y = setCell b x y ((b ! nat y ! nat x)\<lparr>visited := True\<rparr>)"
  by (simp add: markVisited_def setCell_def)

lemma unvisited_markVisited:
  assumes "cellAt b x y = Some c" and "\<not> visited c"
  shows "unvisited (markVisited b x y) < unvisited b"
  using count_cells_setCell [OF assms(1), of "\<lambda>c. \<not> visited c" "c\<lparr>visited := True\<rparr>"]
    cellAt_SomeD [OF assms(1)] assms(2)
  by (simp add: unvisited_def markVisited_setCell)

termination slide
proof (relation "measure (\<lambda>(dx, dy, g, moved). unvisited (board g))", goal_cases)
  case 1
  show ?case by simp
next
  case (2 dx dy g moved newX newY c)
  then show ?case by (simp add: unvisited_markVisited)
qed

declare slide.simps [simp del]

section \<open>Directions and cells\<close>

text \<open>
  What the two tables give for a token, when a board has a cell at a position, and how
  marking one cell changes the counts of cells.
\<close>

lemma dx_of_cardinal [simp]:
  "dx_of ''up'' = Num 0" "dx_of ''down'' = Num 0" "dx_of ''left'' = Num (- 1)" "dx_of ''right'' = Num 1"
  by (simp_all add: dx_of_def property_def)

lemma dy_of_cardinal [simp]:
  "dy_of ''up'' = Num (- 1)" "dy_of ''down'' = Num 1" "dy_of ''left'' = Num 0" "dy_of ''right'' = Num 0"
  by (simp_all add: dy_of_def property_def)

lemma cardinal_offsets:
  assumes "cardinal direction"
  shows "\<exists>dx dy. (direction, dx, dy) \<in> {(''up'', 0, - 1), (''down'', 0, 1), (''left'', - 1, 0), (''right'', 1, 0)} \<and>
     dx_of direction = Num dx \<and> dy_of direction = Num dy"
proof -
  from assms consider "direction = ''up''" | "direction = ''down''"
    | "direction = ''left''" | "direction = ''right''"
    by (auto simp: cardinal_def)
  then show ?thesis
  proof cases
    case 1
    then show ?thesis by (intro exI [of _ 0] exI [of _ "- 1"]) simp
  next
    case 2
    then show ?thesis by (intro exI [of _ 0] exI [of _ 1]) simp
  next
    case 3
    then show ?thesis by (intro exI [of _ "- 1"] exI [of _ 0]) simp
  next
    case 4
    then show ?thesis by (intro exI [of _ 1] exI [of _ 0]) simp
  qed
qed

lemma offsets_of_token:
  assumes "\<exists>dx dy. (d, dx, dy) \<in> {(''up'', 0, - 1), (''down'', 0, 1), (''left'', - 1, 0), (''right'', 1, 0)} \<and> P dx dy"
  shows "d = ''up'' \<Longrightarrow> P 0 (- 1)" and "d = ''down'' \<Longrightarrow> P 0 1"
    and "d = ''left'' \<Longrightarrow> P (- 1) 0" and "d = ''right'' \<Longrightarrow> P 1 0"
proof -
  from assms obtain dx dy
    where m: "(d, dx, dy) \<in> {(''up'', 0, - 1), (''down'', 0, 1), (''left'', - 1, 0), (''right'', 1, 0)}"
      and p: "P dx dy"
    by blast
  show "P 0 (- 1)" if "d = ''up''"
  proof -
    from m that have "dx = 0 \<and> dy = - 1" by simp
    with p show ?thesis by simp
  qed
  show "P 0 1" if "d = ''down''"
  proof -
    from m that have "dx = 0 \<and> dy = 1" by simp
    with p show ?thesis by simp
  qed
  show "P (- 1) 0" if "d = ''left''"
  proof -
    from m that have "dx = - 1 \<and> dy = 0" by simp
    with p show ?thesis by simp
  qed
  show "P 1 0" if "d = ''right''"
  proof -
    from m that have "dx = 1 \<and> dy = 0" by simp
    with p show ?thesis by simp
  qed
qed

lemma dx_of_Num_iff: "(\<exists>n. dx_of d = Num n) \<longleftrightarrow> cardinal d"
  by (auto simp: dx_of_def property_def cardinal_def split: option.splits if_splits)

lemma dy_of_Num_iff: "(\<exists>n. dy_of d = Num n) \<longleftrightarrow> cardinal d"
  by (auto simp: dy_of_def property_def cardinal_def split: option.splits if_splits)

lemma dx_of_Undefined_iff: "dx_of d = Undefined \<longleftrightarrow> \<not> cardinal d \<and> d \<notin> set object_prototype_keys"
  by (auto simp: dx_of_def property_def cardinal_def split: option.splits if_splits)

lemma dy_of_Undefined_iff: "dy_of d = Undefined \<longleftrightarrow> \<not> cardinal d \<and> d \<notin> set object_prototype_keys"
  by (auto simp: dy_of_def property_def cardinal_def split: option.splits if_splits)

lemma dx_dy_same_kind:
  "(dx_of d = Undefined \<longleftrightarrow> dy_of d = Undefined) \<and> (dx_of d = Inherited \<longleftrightarrow> dy_of d = Inherited)"
  by (auto simp: dx_of_def dy_of_def property_def split: option.splits if_splits)

lemma unit_vector:
  "dx_of d = Num dx \<Longrightarrow> dy_of d = Num dy \<Longrightarrow>
     (dx, dy) \<in> {(0, - 1), (0, 1), (- 1, 0), (1, 0)}"
  by (auto simp: dx_of_def dy_of_def property_def split: option.splits if_splits)

lemma wellformed_cellAt:
  "wellformed g \<Longrightarrow> 0 \<le> x \<Longrightarrow> x < width g \<Longrightarrow> 0 \<le> y \<Longrightarrow> y < height g \<Longrightarrow>
     \<exists>c. cellAt (board g) x y = Some c"
  by (auto simp: wellformed_def cellAt_def Let_def)

lemma cellAt_setCell:
  assumes "0 \<le> x" "0 \<le> y"
  shows "cellAt (setCell b x y v) x' y' =
     (if x' = x \<and> y' = y \<and> cellAt b x y \<noteq> None then Some v else cellAt b x' y')"
  using assms
  by (auto simp: cellAt_def setCell_def Let_def nth_list_update nat_eq_iff split: if_splits)

lemma cellAt_markVisited:
  assumes "cellAt b x y = Some c"
  shows "cellAt (markVisited b x y) x' y' =
     (if x' = x \<and> y' = y then Some (c\<lparr>visited := True\<rparr>) else cellAt b x' y')"
  using cellAt_SomeD [OF assms] assms
  by (simp add: markVisited_setCell cellAt_setCell)

lemma length_setCell [simp]: "length (setCell b x y v) = length b"
  by (simp add: setCell_def)

lemma map_length_markVisited [simp]: "map length (markVisited b x y) = map length b"
proof (cases "nat y < length b")
  case True
  then show ?thesis
    by (simp add: markVisited_def map_update list_update_same_conv)
next
  case False
  then show ?thesis by (simp add: markVisited_def list_update_beyond)
qed

lemma wellformed_markVisited:
  assumes "wellformed g"
  shows "wellformed (g\<lparr>board := markVisited (board g) x y\<rparr>)"
proof (cases "nat y < length (board g)")
  case True
  then have "board g ! nat y \<in> set (board g)" by simp
  with assms have "length (board g ! nat y) = nat (width g)"
    by (simp add: wellformed_def)
  with assms show ?thesis
    by (auto simp: wellformed_def markVisited_def dest!: set_update_subset_insert [THEN subsetD])
next
  case False
  then have "markVisited (board g) x y = board g"
    by (simp add: markVisited_def list_update_beyond)
  with assms show ?thesis by (simp add: wellformed_def)
qed

lemma count_cells_concat: "count_cells P b = length (filter P (concat b))"
  by (induction b) (simp_all add: count_cells_def)

lemma count_cells_pos:
  assumes "cellAt b x y = Some c" and "P c"
  shows "0 < count_cells P b"
proof -
  from cellAt_SomeD [OF assms(1)] have "c \<in> set (b ! nat y)" "b ! nat y \<in> set b"
    by simp_all
  with assms(2) have "filter P (concat b) \<noteq> []"
    by (auto simp: filter_empty_conv)
  then show ?thesis by (simp add: count_cells_concat)
qed

lemma count_cells_zero:
  "(\<And>row c. row \<in> set b \<Longrightarrow> c \<in> set row \<Longrightarrow> \<not> P c) \<Longrightarrow> count_cells P b = 0"
  by (auto simp: count_cells_concat filter_empty_conv)

lemma count_visited_markVisited:
  assumes "cellAt b x y = Some c" and "\<not> blocked c" and "\<not> visited c"
  shows "count_cells (\<lambda>c. visited c \<and> \<not> blocked c) (markVisited b x y)
     = Suc (count_cells (\<lambda>c. visited c \<and> \<not> blocked c) b)"
  using count_cells_setCell [OF assms(1), of "\<lambda>c. visited c \<and> \<not> blocked c" "c\<lparr>visited := True\<rparr>"]
    cellAt_SomeD [OF assms(1)] assms(2,3)
  by (simp add: markVisited_setCell)

lemma count_blocked_markVisited:
  assumes "cellAt b x y = Some c"
  shows "count_cells (\<lambda>c. \<not> blocked c) (markVisited b x y) = count_cells (\<lambda>c. \<not> blocked c) b"
  using count_cells_setCell [OF assms, of "\<lambda>c. \<not> blocked c" "c\<lparr>visited := True\<rparr>"]
    cellAt_SomeD [OF assms]
  by (simp add: markVisited_setCell)

lemma two_cells:
  assumes c: "cellAt b x y = Some c" "P c" and c': "cellAt b x' y' = Some c'" "P c'"
    and ne: "(x', y') \<noteq> (x, y)" and v: "\<not> P v"
  shows "2 \<le> count_cells P b"
proof -
  from cellAt_SomeD [OF c(1)] have pos: "0 \<le> x" "0 \<le> y" by simp_all
  have "cellAt (setCell b x y v) x' y' = Some c'"
    using ne c'(1) by (auto simp: cellAt_setCell [OF pos])
  from count_cells_pos [of "setCell b x y v" x' y' c' P, OF this c'(2)] count_cells_setCell [OF c(1), of P v] c(2) v
  show ?thesis by simp
qed

section \<open>The slide\<close>

text \<open>
  The loop enters the cells ahead as long as they pass its test: \<open>slide_run\<close> gives the number
  of cells entered and the state reached, \<open>cellAt_entered\<close> reads the board of that state cell
  by cell, \<open>slide_count\<close> keeps the visited count in step with the board.
\<close>

lemma enterable_after_step:
  assumes "cellAt (board g) tx ty = Some c"
  shows "enterable (g\<lparr> playerX := a, playerY := b,
                       board := markVisited (board g) tx ty, visitedCount := v \<rparr>) x y
     \<longleftrightarrow> enterable g x y \<and> (x, y) \<noteq> (tx, ty)"
  by (auto simp: enterable_def cellAt_markVisited [OF assms] split: option.splits)

lemma slide_stop:
  assumes "wellformed g" and "\<not> enterable g (playerX g + dx) (playerY g + dy)"
  shows "slide dx dy g moved = (True, g, moved)"
proof (cases "playerX g + dx < 0 \<or> playerX g + dx \<ge> width g
    \<or> playerY g + dy < 0 \<or> playerY g + dy \<ge> height g")
  case True
  then show ?thesis by (subst slide.simps) (simp add: Let_def)
next
  case False
  with wellformed_cellAt [OF assms(1), of "playerX g + dx" "playerY g + dy"]
  obtain c where c: "cellAt (board g) (playerX g + dx) (playerY g + dy) = Some c"
    by auto
  with False assms(2) have "blocked c \<or> visited c"
    by (auto simp: enterable_def)
  with False c show ?thesis by (subst slide.simps) (simp add: Let_def)
qed

lemma slide_step:
  assumes "enterable g (playerX g + dx) (playerY g + dy)"
  shows "slide dx dy g moved =
     slide dx dy (g\<lparr> playerX := playerX g + dx, playerY := playerY g + dy,
                     board := markVisited (board g) (playerX g + dx) (playerY g + dy),
                     visitedCount := visitedCount g + 1 \<rparr>) True"
  using assms
  by (subst slide.simps) (auto simp: enterable_def Let_def split: option.splits)

lemma entered_0 [simp]: "entered g dx dy 0 = g"
  by (simp add: entered_def)

lemma entered_Suc:
  "entered (g\<lparr> playerX := playerX g + dx, playerY := playerY g + dy,
               board := markVisited (board g) (playerX g + dx) (playerY g + dy),
               visitedCount := visitedCount g + 1 \<rparr>) dx dy k
   = entered g dx dy (Suc k)"
proof -
  have "[1..<Suc (Suc k)] = 1 # map Suc [1..<Suc k]"
    by (simp add: upt_conv_Cons map_Suc_upt del: upt_Suc)
  then show ?thesis
    by (simp add: entered_def fold_map comp_def algebra_simps del: upt_Suc)
qed

lemma entered_fields [simp]:
  "started (entered g dx dy k) = started g" "finished (entered g dx dy k) = finished g"
  "won (entered g dx dy k) = won g" "totalCells (entered g dx dy k) = totalCells g"
  "width (entered g dx dy k) = width g" "height (entered g dx dy k) = height g"
  "levelId (entered g dx dy k) = levelId g"
  "playerX (entered g dx dy k) = playerX g + int k * dx"
  "playerY (entered g dx dy k) = playerY g + int k * dy"
  "visitedCount (entered g dx dy k) = visitedCount g + int k"
  by (simp_all add: entered_def)

lemma wellformed_entered: "wellformed g \<Longrightarrow> wellformed (entered g dx dy k)"
proof (induction k arbitrary: g)
  case 0
  then show ?case by simp
next
  case (Suc k)
  let ?g1 = "g\<lparr> playerX := playerX g + dx, playerY := playerY g + dy,
               board := markVisited (board g) (playerX g + dx) (playerY g + dy),
               visitedCount := visitedCount g + 1 \<rparr>"
  have "wellformed ?g1"
    using wellformed_markVisited [OF Suc.prems, of "playerX g + dx" "playerY g + dy"]
    by (simp add: wellformed_def)
  from Suc.IH [OF this] show ?case by (simp add: entered_Suc)
qed

lemma board_entered_Suc:
  "board (entered g dx dy (Suc k)) =
     markVisited (board (entered g dx dy k))
       (playerX g + int (Suc k) * dx) (playerY g + int (Suc k) * dy)"
  by (simp add: entered_def)

lemma cellAt_entered:
  assumes "\<forall>i\<in>{1..k}. cellAt (board g) (playerX g + int i * dx) (playerY g + int i * dy) \<noteq> None"
  shows "cellAt (board (entered g dx dy k)) x y =
     (if \<exists>i\<in>{1..k}. x = playerX g + int i * dx \<and> y = playerY g + int i * dy
      then map_option (\<lambda>c. c\<lparr>visited := True\<rparr>) (cellAt (board g) x y)
      else cellAt (board g) x y)"
  using assms
proof (induction k arbitrary: x y)
  case 0
  then show ?case by simp
next
  case (Suc k)
  define qx where "qx = playerX g + int (Suc k) * dx"
  define qy where "qy = playerY g + int (Suc k) * dy"
  let ?b = "board (entered g dx dy k)"
  let ?upd = "\<lambda>c. c\<lparr>visited := True\<rparr>"
  have step: "board (entered g dx dy (Suc k)) = markVisited ?b qx qy"
    unfolding qx_def qy_def by (rule board_entered_Suc)
  from Suc.prems have prev: "\<forall>i\<in>{1..k}. cellAt (board g) (playerX g + int i * dx) (playerY g + int i * dy) \<noteq> None"
    by simp
  note IH = Suc.IH [OF prev]
  have "Suc k \<in> {1..Suc k}" by simp
  with Suc.prems have "cellAt (board g) qx qy \<noteq> None"
    unfolding qx_def qy_def by blast
  then obtain c0 where c0: "cellAt (board g) qx qy = Some c0" by auto
  define hit where
    "hit \<longleftrightarrow> (\<exists>i\<in>{1..k}. qx = playerX g + int i * dx \<and> qy = playerY g + int i * dy)"
  define c' where "c' = (if hit then ?upd c0 else c0)"
  have "cellAt ?b qx qy = (if hit then map_option ?upd (cellAt (board g) qx qy)
       else cellAt (board g) qx qy)"
    unfolding hit_def by (rule IH)
  then have c': "cellAt ?b qx qy = Some c'"
    unfolding c0 c'_def by (cases hit) simp_all
  have upd: "?upd c' = ?upd c0"
    by (simp add: c'_def)
  have last: "(\<exists>i\<in>{1..Suc k}. x = playerX g + int i * dx \<and> y = playerY g + int i * dy) \<longleftrightarrow>
      (x = qx \<and> y = qy) \<or> (\<exists>i\<in>{1..k}. x = playerX g + int i * dx \<and> y = playerY g + int i * dy)"
    (is "?lhs \<longleftrightarrow> ?rhs")
  proof
    assume ?lhs
    then obtain i where i: "i \<in> {1..Suc k}" "x = playerX g + int i * dx" "y = playerY g + int i * dy"
      by blast
    show ?rhs
    proof (cases "i = Suc k")
      case True
      with i(2,3) show ?thesis unfolding qx_def qy_def by blast
    next
      case False
      with i(1) have "i \<in> {1..k}" by simp
      with i(2,3) show ?thesis by blast
    qed
  next
    assume ?rhs
    then show ?lhs
    proof
      assume "x = qx \<and> y = qy"
      moreover have "Suc k \<in> {1..Suc k}" by simp
      ultimately show ?lhs unfolding qx_def qy_def by blast
    next
      assume "\<exists>i\<in>{1..k}. x = playerX g + int i * dx \<and> y = playerY g + int i * dy"
      then obtain i where "i \<in> {1..k}" "x = playerX g + int i * dx" "y = playerY g + int i * dy"
        by blast
      moreover from this(1) have "i \<in> {1..Suc k}" by simp
      ultimately show ?lhs by blast
    qed
  qed
  show ?case
  proof (cases "x = qx \<and> y = qy")
    case True
    with last have hit_now: "(\<exists>i\<in>{1..Suc k}. x = playerX g + int i * dx \<and> y = playerY g + int i * dy) \<longleftrightarrow> True"
      by blast
    have new: "cellAt (markVisited ?b qx qy) x y = Some (?upd c0)"
      using True upd by (simp add: cellAt_markVisited [OF c'])
    from True c0 have old: "cellAt (board g) x y = Some c0" by simp
    show ?thesis
      unfolding step hit_now new old by simp
  next
    case False
    define near where
      "near \<longleftrightarrow> (\<exists>i\<in>{1..k}. x = playerX g + int i * dx \<and> y = playerY g + int i * dy)"
    from False last have hit_now: "(\<exists>i\<in>{1..Suc k}. x = playerX g + int i * dx \<and> y = playerY g + int i * dy) \<longleftrightarrow> near"
      unfolding near_def by blast
    have new: "cellAt (markVisited ?b qx qy) x y = cellAt ?b x y"
      using False by (auto simp: cellAt_markVisited [OF c'])
    have ih: "cellAt ?b x y = (if near then map_option ?upd (cellAt (board g) x y)
         else cellAt (board g) x y)"
      unfolding near_def by (rule IH)
    show ?thesis
      unfolding step hit_now new ih by (rule refl)
  qed
qed

lemma slide_run:
  "dx \<noteq> 0 \<or> dy \<noteq> 0 \<Longrightarrow> wellformed g \<Longrightarrow>
    \<exists>k. (\<forall>i\<in>{1..k}. enterable g (playerX g + int i * dx) (playerY g + int i * dy)) \<and>
        \<not> enterable g (playerX g + int (Suc k) * dx) (playerY g + int (Suc k) * dy) \<and>
        slide dx dy g moved = (True, entered g dx dy k, moved \<or> 0 < k)"
proof (induction dx dy g moved rule: slide.induct)
  case (1 dx dy g moved)
  note nonzero = "1.prems"(1) and wf = "1.prems"(2)
  let ?x = "playerX g + dx" and ?y = "playerY g + dy"
  show ?case
  proof (cases "enterable g ?x ?y")
    case False
    with slide_stop [OF wf False, of moved] show ?thesis
      by (intro exI [of _ 0]) simp
  next
    case True
    let ?g1 = "g\<lparr> playerX := ?x, playerY := ?y,
                  board := markVisited (board g) ?x ?y, visitedCount := visitedCount g + 1 \<rparr>"
    from True obtain c where c: "cellAt (board g) ?x ?y = Some c"
      and open_c: "\<not> (blocked c \<or> visited c)"
      and inb: "\<not> (?x < 0 \<or> ?x \<ge> width g \<or> ?y < 0 \<or> ?y \<ge> height g)"
      by (auto simp: enterable_def split: option.splits)
    have wf1: "wellformed ?g1"
      using wellformed_markVisited [OF wf, of ?x ?y] by (simp add: wellformed_def)
    from "1.IH" [OF refl refl inb c open_c nonzero wf1]
    obtain k where run: "\<forall>i\<in>{1..k}. enterable ?g1 (?x + int i * dx) (?y + int i * dy)"
      and stop: "\<not> enterable ?g1 (?x + int (Suc k) * dx) (?y + int (Suc k) * dy)"
      and res: "slide dx dy ?g1 True = (True, entered ?g1 dx dy k, True)"
      by auto
    have shift: "?x + int i * dx = playerX g + int (Suc i) * dx"
      "?y + int i * dy = playerY g + int (Suc i) * dy" for i
      by (simp_all add: algebra_simps)
    have "enterable g (playerX g + int i * dx) (playerY g + int i * dy)" if "i \<in> {1..Suc k}" for i
    proof (cases i)
      case 0
      with that show ?thesis by simp
    next
      case (Suc j)
      show ?thesis
      proof (cases j)
        case 0
        with Suc True show ?thesis by simp
      next
        case (Suc j')
        with \<open>i = Suc j\<close> that have "j \<in> {1..k}" by simp
        with run have "enterable ?g1 (?x + int j * dx) (?y + int j * dy)" by blast
        then show ?thesis
          unfolding shift \<open>i = Suc j\<close> by (simp add: enterable_after_step [OF c])
      qed
    qed
    moreover have "\<not> enterable g (playerX g + int (Suc (Suc k)) * dx) (playerY g + int (Suc (Suc k)) * dy)"
    proof -
      have "int (Suc k) * dx \<noteq> 0 \<or> int (Suc k) * dy \<noteq> 0"
        using nonzero by simp
      then have far: "(?x + int (Suc k) * dx, ?y + int (Suc k) * dy) \<noteq> (?x, ?y)"
        by auto
      from stop have "\<not> (enterable g (?x + int (Suc k) * dx) (?y + int (Suc k) * dy) \<and>
          (?x + int (Suc k) * dx, ?y + int (Suc k) * dy) \<noteq> (?x, ?y))"
        unfolding enterable_after_step [OF c] .
      with far have "\<not> enterable g (?x + int (Suc k) * dx) (?y + int (Suc k) * dy)"
        by blast
      then show ?thesis
        unfolding shift .
    qed
    moreover have "slide dx dy g moved = (True, entered g dx dy (Suc k), moved \<or> 0 < Suc k)"
      using slide_step [OF True, of moved] res by (simp add: entered_Suc)
    ultimately show ?thesis by blast
  qed
qed

lemma slide_count:
  "visitedCount g = int (count_cells (\<lambda>c. visited c \<and> \<not> blocked c) (board g)) \<Longrightarrow>
   slide dx dy g moved = (ok, g', moved') \<Longrightarrow>
   visitedCount g' = int (count_cells (\<lambda>c. visited c \<and> \<not> blocked c) (board g'))"
proof (induction dx dy g moved rule: slide.induct)
  case (1 dx dy g moved)
  let ?x = "playerX g + dx" and ?y = "playerY g + dy"
  show ?case
  proof (cases "\<not> (?x < 0 \<or> ?x \<ge> width g \<or> ?y < 0 \<or> ?y \<ge> height g) \<and>
      (\<exists>c. cellAt (board g) ?x ?y = Some c \<and> \<not> (blocked c \<or> visited c))")
    case True
    then obtain c where inb: "\<not> (?x < 0 \<or> ?x \<ge> width g \<or> ?y < 0 \<or> ?y \<ge> height g)"
      and c: "cellAt (board g) ?x ?y = Some c" and open_c: "\<not> (blocked c \<or> visited c)"
      by blast
    let ?g1 = "g\<lparr> playerX := ?x, playerY := ?y,
                  board := markVisited (board g) ?x ?y, visitedCount := visitedCount g + 1 \<rparr>"
    have "visitedCount ?g1 = int (count_cells (\<lambda>c. visited c \<and> \<not> blocked c) (board ?g1))"
      using "1.prems"(1) count_visited_markVisited [OF c] open_c by simp
    moreover have "slide dx dy ?g1 True = (ok, g', moved')"
      using "1.prems"(2) inb c open_c by (subst (asm) slide.simps) (simp add: Let_def)
    ultimately show ?thesis
      using "1.IH" [OF refl refl inb c open_c] by blast
  next
    case False
    then have "g' = g"
      using "1.prems"(2)
      by (subst (asm) slide.simps) (auto simp: Let_def split: option.splits if_splits)
    with "1.prems"(1) show ?thesis by simp
  qed
qed

section \<open>The move\<close>

text \<open>
  On a board of the declared shape \<^verbatim>\<open>isValidMove\<close> never throws, and the part of
  \<^verbatim>\<open>executeMove\<close> after the loop is \<open>settle\<close>. \<open>executeMove_cases\<close> lists the five ways a call
  can end.
\<close>

lemma some_Some:
  "(\<And>x. x \<in> set xs \<Longrightarrow> f x = Some (p x)) \<Longrightarrow> some f xs = Some (\<exists>x \<in> set xs. p x)"
  by (induction xs) (auto split: bool.splits)

lemma isValidMove_cardinal:
  assumes "wellformed g" and "cardinal d"
  shows "isValidMove d g = Some (started g \<and> \<not> finished g \<and> canStepTo d g)"
proof -
  from assms(2) obtain dx dy where d: "dx_of d = Num dx" "dy_of d = Num dy"
    using dx_of_Num_iff dy_of_Num_iff by blast
  show ?thesis
  proof (cases "0 \<le> playerX g + dx \<and> playerX g + dx < width g
      \<and> 0 \<le> playerY g + dy \<and> playerY g + dy < height g")
    case True
    with wellformed_cellAt [OF assms(1), of "playerX g + dx" "playerY g + dy"]
    obtain c where "cellAt (board g) (playerX g + dx) (playerY g + dy) = Some c"
      by auto
    with True d show ?thesis
      by (auto simp: isValidMove_def canStepTo_def enterable_def Let_def)
  next
    case False
    with d show ?thesis
      by (auto simp: isValidMove_def canStepTo_def enterable_def Let_def)
  qed
qed

lemma some_isValidMove:
  assumes "wellformed g"
  shows "some (\<lambda>dir. isValidMove dir g) [''up'', ''down'', ''left'', ''right'']
     = Some (started g \<and> \<not> finished g \<and> (\<exists>d \<in> set directions. canStepTo d g))"
proof -
  have "some (\<lambda>dir. isValidMove dir g) directions
      = Some (\<exists>d \<in> set directions. started g \<and> \<not> finished g \<and> canStepTo d g)"
    by (rule some_Some) (auto simp: directions_def cardinal_def intro!: isValidMove_cardinal [OF assms])
  then show ?thesis by (auto simp: directions_def)
qed

lemma settle_fields [simp]:
  "started (settle g) = started g" "totalCells (settle g) = totalCells g"
  "width (settle g) = width g" "height (settle g) = height g" "levelId (settle g) = levelId g"
  "playerX (settle g) = playerX g" "playerY (settle g) = playerY g"
  "visitedCount (settle g) = visitedCount g" "board (settle g) = board g"
  by (simp_all add: settle_def)

lemma settle_as_update: "settle g = g\<lparr>finished := finished (settle g), won := won (settle g)\<rparr>"
  by (simp add: settle_def)

lemma canStepTo_settle [simp]: "canStepTo d (settle g) = canStepTo d g"
  by (simp add: canStepTo_def enterable_def split: jsval.splits)

lemma settle_won: "\<not> won g \<Longrightarrow> won (settle g) \<longleftrightarrow> visitedCount g = totalCells g"
  by (simp add: settle_def)

lemma settle_finished_won: "won g \<longrightarrow> finished g \<Longrightarrow> won (settle g) \<longrightarrow> finished (settle g)"
  by (simp add: settle_def)


lemma game_broadcastState [simp]: "game (broadcastState s) = game s"
  by (simp add: broadcastState_def)

lemma executeMove_inactive:
  "\<not> started (game s) \<or> finished (game s) \<Longrightarrow> executeMove direction s = (Failure NotActive, s)"
  by (auto simp: executeMove_def)

lemma executeMove_undefined:
  "started (game s) \<Longrightarrow> \<not> finished (game s) \<Longrightarrow> dx_of direction = Undefined \<Longrightarrow>
     executeMove direction s = (Failure InvalidDirection, s)"
  by (simp add: executeMove_def)

lemma executeMove_inherited:
  assumes "started (game s)" and "\<not> finished (game s)" and "dx_of direction = Inherited"
  shows "executeMove direction s = (TypeError, s)"
proof -
  from assms(3) have "dy_of direction = Inherited"
    using dx_dy_same_kind by blast
  with assms show ?thesis by (simp add: executeMove_def)
qed

lemma slide_blocked:
  assumes "playerX g + dx < 0 \<or> playerX g + dx \<ge> width g \<or>
           playerY g + dy < 0 \<or> playerY g + dy \<ge> height g \<or>
           (\<exists>c. cellAt (board g) (playerX g + dx) (playerY g + dy) = Some c \<and>
                (blocked c \<or> visited c))"
  shows "slide dx dy g moved = (True, g, moved)"
  using assms by (subst slide.simps) (auto simp: Let_def)

lemma executeMove_no_step:
  assumes "started (game s)" and "\<not> finished (game s)"
    and "dx_of direction = Num dx" and "dy_of direction = Num dy"
    and "playerX (game s) + dx < 0 \<or> playerX (game s) + dx \<ge> width (game s) \<or>
         playerY (game s) + dy < 0 \<or> playerY (game s) + dy \<ge> height (game s) \<or>
         (\<exists>c. cellAt (board (game s)) (playerX (game s) + dx) (playerY (game s) + dy) = Some c \<and>
              (blocked c \<or> visited c))"
  shows "executeMove direction s = (Failure NoMovement, s)"
  using assms(1-4) slide_blocked [OF assms(5), of False] by (simp add: executeMove_def)

lemma executeMove_slide:
  assumes wf: "wellformed (game s)" and active: "started (game s)" "\<not> finished (game s)"
    and d: "dx_of direction = Num dx" "dy_of direction = Num dy"
    and res: "slide dx dy (game s) False = (True, entered (game s) dx dy k, 0 < k)"
  shows "executeMove direction s =
     (if k = 0 then (Failure NoMovement, s)
      else let g' = settle (entered (game s) dx dy k)
           in (Moved (finished g') (won g') (playerX g') (playerY g') (visitedCount g') (totalCells g'),
               broadcastState (s\<lparr>game := g'\<rparr>)))"
proof (cases "k = 0")
  case True
  with active d res show ?thesis by (simp add: executeMove_def)
next
  case False
  let ?g1 = "entered (game s) dx dy k"
  show ?thesis
  proof (cases "visitedCount ?g1 = totalCells ?g1")
    case True
    let ?g2 = "?g1\<lparr>finished := True, won := True\<rparr>"
    have "wellformed ?g2"
      using wellformed_entered [OF wf, of dx dy k] by (simp add: wellformed_def)
    from some_isValidMove [OF this]
    have "some (\<lambda>dir. isValidMove dir ?g2) [''up'', ''down'', ''left'', ''right''] = Some False"
      by simp
    moreover have "settle ?g1 = ?g2"
      using True by (simp add: settle_def)
    ultimately show ?thesis
      using \<open>k \<noteq> 0\<close> True active d res
      by (simp add: executeMove_def Let_def del: some.simps entered_fields)
  next
    case False
    have "some (\<lambda>dir. isValidMove dir ?g1) [''up'', ''down'', ''left'', ''right'']
        = Some (\<exists>d \<in> set directions. canStepTo d ?g1)"
      using some_isValidMove [OF wellformed_entered [OF wf, of dx dy k]] active by simp
    moreover have "settle ?g1 =
        (if \<not> (\<exists>d \<in> set directions. canStepTo d ?g1) \<and> \<not> won ?g1
         then ?g1\<lparr>finished := True, won := False\<rparr> else ?g1)"
      using False by (simp add: settle_def)
    ultimately show ?thesis
      using \<open>k \<noteq> 0\<close> False active d res
      by (simp add: executeMove_def Let_def del: some.simps entered_fields)
  qed
qed

lemma executeMove_cardinal:
  assumes wf: "wellformed (game s)" and active: "started (game s)" "\<not> finished (game s)"
    and d: "dx_of direction = Num dx" "dy_of direction = Num dy"
  shows "\<exists>k. (\<forall>i\<in>{1..k}. enterable (game s) (playerX (game s) + int i * dx)
                                         (playerY (game s) + int i * dy)) \<and>
             \<not> enterable (game s) (playerX (game s) + int (Suc k) * dx)
                                   (playerY (game s) + int (Suc k) * dy) \<and>
             executeMove direction s =
               (if k = 0 then (Failure NoMovement, s)
                else let g' = settle (entered (game s) dx dy k)
                     in (Moved (finished g') (won g') (playerX g') (playerY g')
                           (visitedCount g') (totalCells g'),
                         broadcastState (s\<lparr>game := g'\<rparr>)))"
proof -
  from unit_vector [OF d] have "dx \<noteq> 0 \<or> dy \<noteq> 0" by auto
  from slide_run [OF this wf, of False]
  obtain k where run: "\<forall>i\<in>{1..k}. enterable (game s) (playerX (game s) + int i * dx)
                                         (playerY (game s) + int i * dy)"
    and stop: "\<not> enterable (game s) (playerX (game s) + int (Suc k) * dx)
                                   (playerY (game s) + int (Suc k) * dy)"
    and res: "slide dx dy (game s) False = (True, entered (game s) dx dy k, 0 < k)"
    by auto
  from executeMove_slide [OF wf active d res] run stop show ?thesis by blast
qed

lemma executeMove_MovedD:
  assumes wf: "wellformed (game s)"
    and res: "executeMove direction s = (Moved f w px py vc tc, s')"
  shows "started (game s) \<and> \<not> finished (game s) \<and>
     (\<exists>dx dy k. dx_of direction = Num dx \<and> dy_of direction = Num dy \<and> 0 < k \<and>
        (\<forall>i\<in>{1..k}. enterable (game s) (playerX (game s) + int i * dx)
                                    (playerY (game s) + int i * dy)) \<and>
        s' = broadcastState (s\<lparr>game := settle (entered (game s) dx dy k)\<rparr>) \<and>
        f = finished (game s') \<and> w = won (game s') \<and> px = playerX (game s') \<and>
        py = playerY (game s') \<and> vc = visitedCount (game s') \<and> tc = totalCells (game s'))"
proof -
  have active: "started (game s)" "\<not> finished (game s)"
    using res executeMove_inactive [of s direction] by auto
  show ?thesis
  proof (cases "dx_of direction")
    case (Num dx)
    then have "cardinal direction" using dx_of_Num_iff by blast
    then obtain dy where dy: "dy_of direction = Num dy" using dy_of_Num_iff by blast
    from executeMove_cardinal [OF wf active Num dy] obtain k where
      run: "\<forall>i\<in>{1..k}. enterable (game s) (playerX (game s) + int i * dx)
                                    (playerY (game s) + int i * dy)"
      and k: "executeMove direction s =
               (if k = 0 then (Failure NoMovement, s)
                else let g' = settle (entered (game s) dx dy k)
                     in (Moved (finished g') (won g') (playerX g') (playerY g')
                           (visitedCount g') (totalCells g'),
                         broadcastState (s\<lparr>game := g'\<rparr>)))"
      by blast
    with res have "0 < k" by (cases "k = 0") auto
    with k res have "s' = broadcastState (s\<lparr>game := settle (entered (game s) dx dy k)\<rparr>) \<and>
        f = finished (game s') \<and> w = won (game s') \<and> px = playerX (game s') \<and>
        py = playerY (game s') \<and> vc = visitedCount (game s') \<and> tc = totalCells (game s')"
      by (auto simp: Let_def broadcastState_def)
    with active Num dy \<open>0 < k\<close> run show ?thesis by blast
  next
    case Undefined
    with res executeMove_undefined [OF active Undefined] show ?thesis by simp
  next
    case Inherited
    with res executeMove_inherited [OF active Inherited] show ?thesis by simp
  qed
qed

lemma executeMove_cases [consumes 1, case_names inactive invalid throws blocked moved]:
  assumes wf: "wellformed (game s)"
  obtains "executeMove direction s = (Failure NotActive, s)"
  | "executeMove direction s = (Failure InvalidDirection, s)"
  | "executeMove direction s = (TypeError, s)"
  | "executeMove direction s = (Failure NoMovement, s)"
  | dx dy k where "started (game s)" and "\<not> finished (game s)"
      and "dx_of direction = Num dx" and "dy_of direction = Num dy" and "0 < k"
      and "slide dx dy (game s) False = (True, entered (game s) dx dy k, True)"
      and "executeMove direction s =
             (let g' = settle (entered (game s) dx dy k)
              in (Moved (finished g') (won g') (playerX g') (playerY g')
                    (visitedCount g') (totalCells g'),
                  broadcastState (s\<lparr>game := g'\<rparr>)))"
proof (cases "started (game s) \<and> \<not> finished (game s)")
  case False
  then show ?thesis using that(1) executeMove_inactive [of s direction] by blast
next
  case True
  then have active: "started (game s)" "\<not> finished (game s)" by simp_all
  show ?thesis
  proof (cases "dx_of direction")
    case Undefined
    from executeMove_undefined [OF active this] that(2) show ?thesis by blast
  next
    case Inherited
    from executeMove_inherited [OF active this] that(3) show ?thesis by blast
  next
    case (Num dx)
    then have "cardinal direction" using dx_of_Num_iff by blast
    then obtain dy where dy: "dy_of direction = Num dy" using dy_of_Num_iff by blast
    from unit_vector [OF Num dy] have "dx \<noteq> 0 \<or> dy \<noteq> 0" by auto
    from slide_run [OF this wf, of False] obtain k
      where res: "slide dx dy (game s) False = (True, entered (game s) dx dy k, 0 < k)"
      by auto
    show ?thesis
    proof (cases "k = 0")
      case True
      with executeMove_slide [OF wf active Num dy res] that(4) show ?thesis by simp
    next
      case False
      with executeMove_slide [OF wf active Num dy res] res that(5) [OF active Num dy, of k]
      show ?thesis by simp
    qed
  qed
qed

section \<open>Loading and starting\<close>

text \<open>
  The board \<^verbatim>\<open>parseBoard\<close> builds, the count \<^verbatim>\<open>countPlayableCells\<close> returns, and what a
  successful \<^verbatim>\<open>startGame\<close> has done.
\<close>

lemma length_upto [simp]: "length [0..n - 1] = nat n"
  by (simp add: length_upto)

lemma nth_upto_0: "i < nat n \<Longrightarrow> [0..n - 1] ! i = int i"
  by (simp add: nth_upto)

lemma length_parseBoard [simp]: "length (parseBoard str w h) = nat h"
  by (simp add: parseBoard_def)

lemma set_parseBoard_length: "row \<in> set (parseBoard str w h) \<Longrightarrow> length row = nat w"
  by (auto simp: parseBoard_def)

lemma cellAt_parseBoard:
  "0 \<le> x \<Longrightarrow> x < w \<Longrightarrow> 0 \<le> y \<Longrightarrow> y < h \<Longrightarrow>
     cellAt (parseBoard str w h) x y = Some (parseCell str w y x)"
  by (simp add: cellAt_def parseBoard_def Let_def nth_upto_0)

lemma parseCell_visited_blocked: "visited (parseCell str w y x) = blocked (parseCell str w y x)"
  by (simp add: parseCell_def Let_def)

lemma parseBoard_visited_blocked:
  "row \<in> set (parseBoard str w h) \<Longrightarrow> c \<in> set row \<Longrightarrow> visited c = blocked c"
  by (auto simp: parseBoard_def parseCell_visited_blocked)

lemma fold_count_row:
  "fold (\<lambda>c count. if P c then count + 1 else count) row (n :: int) = n + int (length (filter P row))"
  by (induction row arbitrary: n) auto

lemma countPlayableCells_count:
  "countPlayableCells b = int (count_cells (\<lambda>c. \<not> blocked c) b)"
proof -
  have "fold (\<lambda>row count. fold (\<lambda>c count. if \<not> blocked c then count + 1 else count) row count) b n
      = n + int (count_cells (\<lambda>c. \<not> blocked c) b)" for n :: int
    by (induction b arbitrary: n) (simp_all add: count_cells_def fold_count_row)
  from this [of 0] show ?thesis by (simp add: countPlayableCells_def)
qed

lemma loadLevel_Some:
  assumes "levels lid = Some lv"
  shows "snd (loadLevel levels lid g) = snd (loadLevel levels lid g0)"
  using assms by (simp add: loadLevel_def Let_def)

lemma game_api_reset:
  "game (api_reset levels s) = snd (loadLevel levels (levelId (game s)) (game s))"
  by (simp add: api_reset_def)

lemma startGame_StartedD:
  assumes "startGame x y s = (GameStarted, s')"
  shows "\<not> started (game s) \<and>
     (\<exists>c. cellAt (board (game s)) x y = Some c \<and> \<not> blocked c) \<and>
     s' = broadcastState (s\<lparr>game := (game s)\<lparr> playerX := x, playerY := y, started := True,
             board := markVisited (board (game s)) x y, visitedCount := 1 \<rparr>\<rparr>)"
  using assms by (auto simp: startGame_def Let_def split: if_splits option.splits)

lemma startGame_not_started:
  "fst (startGame x y s) \<noteq> GameStarted \<Longrightarrow> snd (startGame x y s) = s"
  by (auto simp: startGame_def Let_def split: if_splits option.splits)

lemma startGame_flags:
  "finished (game (snd (startGame x y s))) = finished (game s) \<and>
   won (game (snd (startGame x y s))) = won (game s)"
  by (auto simp: startGame_def Let_def broadcastState_def split: option.splits)

section \<open>The invariant of the server\<close>

text \<open>
  \<open>consistent\<close> holds of the initial object and every function keeps it, so it holds after
  every run of requests (\<open>consistent_reachable\<close>).
\<close>

lemma consistent_initialState: "consistent initialState"
  by (simp add: consistent_def wellformed_def initialState_def count_cells_def)

lemma consistent_loadLevel:
  assumes "consistent g"
  shows "consistent (snd (loadLevel levels lid g))"
proof (cases "levels lid")
  case None
  with assms show ?thesis by (simp add: loadLevel_def)
next
  case (Some lv)
  let ?b = "parseBoard (boardStr lv) (level.width lv) (level.height lv)"
  have "count_cells (\<lambda>c. visited c \<and> \<not> blocked c) ?b = 0"
    by (rule count_cells_zero) (simp add: parseBoard_visited_blocked)
  with Some show ?thesis
    by (simp add: loadLevel_def Let_def consistent_def wellformed_def set_parseBoard_length)
qed

lemma consistent_startGame:
  assumes "consistent (game s)"
  shows "consistent (game (snd (startGame x y s)))"
proof (cases "fst (startGame x y s) = GameStarted")
  case False
  then have "snd (startGame x y s) = s"
    by (auto simp: startGame_def Let_def split: if_splits option.splits)
  with assms show ?thesis by simp
next
  case True
  then obtain c where ns: "\<not> started (game s)" and c: "cellAt (board (game s)) x y = Some c"
    and nb: "\<not> blocked c"
    and g': "game (snd (startGame x y s)) =
        (game s)\<lparr> playerX := x, playerY := y, started := True,
                  board := markVisited (board (game s)) x y, visitedCount := 1 \<rparr>"
    by (auto simp: startGame_def Let_def split: if_splits option.splits)
  from assms ns have zero: "count_cells (\<lambda>c. visited c \<and> \<not> blocked c) (board (game s)) = 0"
    by (simp add: consistent_def)
  have nv: "\<not> visited c"
    using count_cells_pos [OF c, of "\<lambda>c. visited c \<and> \<not> blocked c"] nb zero by auto
  have "wellformed ((game s)\<lparr>board := markVisited (board (game s)) x y\<rparr>)"
    using assms by (intro wellformed_markVisited) (simp add: consistent_def)
  then show ?thesis
    using assms ns count_visited_markVisited [OF c nb nv] zero
    by (auto simp: g' consistent_def wellformed_def)
qed

lemma consistent_settle_entered:
  assumes "consistent g" and "started g"
    and "slide dx dy g False = (True, entered g dx dy k, m)"
  shows "consistent (settle (entered g dx dy k))"
proof -
  from assms(1) have wf: "wellformed (entered g dx dy k)"
    by (simp add: consistent_def wellformed_entered)
  from assms(1) have "visitedCount g = int (count_cells (\<lambda>c. visited c \<and> \<not> blocked c) (board g))"
    by (simp add: consistent_def)
  from slide_count [OF this assms(3)]
  have "visitedCount (entered g dx dy k)
      = int (count_cells (\<lambda>c. visited c \<and> \<not> blocked c) (board (entered g dx dy k)))" .
  with wf assms(1,2) show ?thesis
    by (simp add: consistent_def settle_def wellformed_def del: entered_fields)
       (simp add: entered_def)
qed

lemma consistent_executeMove:
  assumes "consistent (game s)"
  shows "consistent (game (snd (executeMove direction s)))"
proof -
  from assms have "wellformed (game s)" by (simp add: consistent_def)
  then show ?thesis
  proof (cases rule: executeMove_cases [where direction = direction])
    case (moved dx dy k)
    from consistent_settle_entered [OF assms moved(1,6)] moved(7) show ?thesis
      by (simp add: Let_def)
  qed (use assms in simp_all)
qed

lemma consistent_api_reset: "consistent (game s) \<Longrightarrow> consistent (game (api_reset levels s))"
  by (simp add: game_api_reset consistent_loadLevel)

lemma consistent_api_level:
  "consistent (game s) \<Longrightarrow> consistent (game (snd (api_level levels lid s)))"
  using consistent_loadLevel [of "game s" levels lid]
  by (auto simp: api_level_def split: prod.splits bool.splits)

lemma consistent_handle: "consistent (game s) \<Longrightarrow> consistent (game (handle levels r s))"
  by (cases r)
    (simp_all add: consistent_api_level consistent_startGame consistent_executeMove
       consistent_api_reset)

lemma consistent_run: "consistent (game s) \<Longrightarrow> consistent (game (run levels reqs s))"
  unfolding run_def by (induction reqs arbitrary: s) (simp_all add: consistent_handle)

lemma consistent_initialServer: "consistent (game (initialServer levels))"
  by (simp add: initialServer_def consistent_loadLevel consistent_initialState)

lemma consistent_reachable: "consistent (game (run levels reqs (initialServer levels)))"
  by (simp add: consistent_run consistent_initialServer)

section \<open>Boards with one open cell\<close>

text \<open>
  With the player on the only open cell every neighbour is outside the board or blocked, so
  no move changes anything.
\<close>

lemma lone_cell_no_step:
  assumes lone: "lone_cell (game s)" and st: "started (game s)"
    and d: "dx_of direction = Num dx" "dy_of direction = Num dy"
  shows "executeMove direction s = (Failure NoMovement, s)"
proof -
  let ?g = "game s"
  let ?x = "playerX ?g + dx" and ?y = "playerY ?g + dy"
  from lone st obtain c where c: "cellAt (board ?g) (playerX ?g) (playerY ?g) = Some c" "\<not> blocked c"
    and wf: "wellformed ?g" and nf: "\<not> finished ?g"
    and one: "count_cells (\<lambda>c. \<not> blocked c) (board ?g) = 1"
    by (auto simp: lone_cell_def)
  from unit_vector [OF d] have ne: "(?x, ?y) \<noteq> (playerX ?g, playerY ?g)" by auto
  have "?x < 0 \<or> ?x \<ge> width ?g \<or> ?y < 0 \<or> ?y \<ge> height ?g \<or>
      (\<exists>c'. cellAt (board ?g) ?x ?y = Some c' \<and> (blocked c' \<or> visited c'))"
  proof (cases "0 \<le> ?x \<and> ?x < width ?g \<and> 0 \<le> ?y \<and> ?y < height ?g")
    case True
    with wellformed_cellAt [OF wf, of ?x ?y] obtain c'
      where c': "cellAt (board ?g) ?x ?y = Some c'" by auto
    have "blocked c'"
    proof (rule ccontr)
      assume "\<not> blocked c'"
      from two_cells [of "board ?g" _ _ c "\<lambda>c. \<not> blocked c", OF c c' this ne, of "c\<lparr>blocked := True\<rparr>"] one
      show False by simp
    qed
    with c' show ?thesis by blast
  next
    case False
    then show ?thesis by auto
  qed
  from executeMove_no_step [OF st nf d this] show ?thesis .
qed

lemma lone_cell_executeMove:
  assumes "lone_cell (game s)"
  shows "snd (executeMove direction s) = s"
proof -
  from assms have wf: "wellformed (game s)" by (simp add: lone_cell_def)
  then show ?thesis
  proof (cases rule: executeMove_cases [where direction = direction])
    case (moved dx dy k)
    from lone_cell_no_step [OF assms moved(1,3,4)] show ?thesis by simp
  qed simp_all
qed

lemma lone_cell_loadLevel:
  assumes "levels lid = Some lv" and "totalCells (snd (loadLevel levels lid g)) = 1"
  shows "lone_cell (snd (loadLevel levels lid g))"
  using assms
  by (simp add: loadLevel_def Let_def lone_cell_def wellformed_def set_parseBoard_length
      countPlayableCells_count)

lemma lone_cell_startGame:
  assumes "lone_cell (game s)"
  shows "lone_cell (game (snd (startGame x y s)))"
proof (cases "fst (startGame x y s) = GameStarted")
  case False
  with assms show ?thesis by (simp add: startGame_not_started)
next
  case True
  then have "startGame x y s = (GameStarted, snd (startGame x y s))"
    by (simp add: prod_eq_iff)
  from startGame_StartedD [OF this] obtain c
    where c: "cellAt (board (game s)) x y = Some c" "\<not> blocked c"
      and g': "game (snd (startGame x y s)) =
        (game s)\<lparr> playerX := x, playerY := y, started := True,
                  board := markVisited (board (game s)) x y, visitedCount := 1 \<rparr>"
    by auto
  have "wellformed ((game s)\<lparr>board := markVisited (board (game s)) x y\<rparr>)"
    using assms by (intro wellformed_markVisited) (simp add: lone_cell_def)
  with assms c show ?thesis
    by (simp add: g' lone_cell_def wellformed_def count_blocked_markVisited [OF c(1)]
        cellAt_markVisited [OF c(1)])
qed

lemma lone_cell_handle:
  assumes lv: "levels lid = Some lv" and one: "totalCells (snd (loadLevel levels lid g0)) = 1"
    and inv: "lone_cell (game s)" "levelId (game s) = lid" and r: "on_level lid r"
  shows "lone_cell (game (handle levels r s)) \<and> levelId (game (handle levels r s)) = lid"
proof (cases r)
  case (Load i)
  with r have i: "i = lid" by (simp add: on_level_def)
  have "game (snd (api_level levels lid s)) = snd (loadLevel levels lid g0)"
    using lv loadLevel_Some [of levels lid lv "game s" g0, OF lv]
    by (simp add: api_level_def loadLevel_def Let_def)
  with lone_cell_loadLevel [of levels lid lv g0, OF lv one] lv Load i show ?thesis
    by (simp add: loadLevel_def Let_def)
next
  case (Start x y)
  with lone_cell_startGame [OF inv(1), of x y] inv(2) show ?thesis
    by (auto simp: startGame_def Let_def split: if_splits option.splits)
next
  case (Move d)
  with inv lone_cell_executeMove [OF inv(1), of d] show ?thesis by simp
next
  case Reset
  have "game (api_reset levels s) = snd (loadLevel levels lid g0)"
    using loadLevel_Some [of levels lid lv "game s" g0, OF lv] inv(2) by (simp add: game_api_reset)
  with lone_cell_loadLevel [of levels lid lv g0, OF lv one] lv Reset show ?thesis
    by (simp add: loadLevel_def Let_def)
qed

lemma lone_cell_run:
  assumes lv: "levels lid = Some lv" and one: "totalCells (snd (loadLevel levels lid g0)) = 1"
  shows "lone_cell (game s) \<Longrightarrow> levelId (game s) = lid \<Longrightarrow> \<forall>r \<in> set reqs. on_level lid r \<Longrightarrow>
     lone_cell (game (run levels reqs s))"
proof (induction reqs arbitrary: s)
  case Nil
  then show ?case by (simp add: run_def)
next
  case (Cons r reqs)
  from Cons.prems(3) have r: "on_level lid r" and rest: "\<forall>r \<in> set reqs. on_level lid r"
    by simp_all
  from lone_cell_handle [of levels lid lv g0 s r, OF lv one Cons.prems(1,2) r]
  have "lone_cell (game (handle levels r s))" "levelId (game (handle levels r s)) = lid"
    by simp_all
  from Cons.IH [OF this rest] show ?case by (simp add: run_def)
qed

section \<open>Concrete runs\<close>

text \<open>
  The scenarios of the specification on the small catalogue: the row \<^verbatim>\<open>...\<close> is won by one
  move to the right from its left end; on the row \<^verbatim>\<open>.X.\<close> the same move does not start; a
  token that names a property of \<^verbatim>\<open>Object.prototype\<close> passes the check of the direction and
  the loop throws.
\<close>

lemma demo_started_0:
  "demo_started 0 0 0 =
     \<lparr> game = \<lparr> levelId = 0,
                board = [[\<lparr>blocked = False, visited = True\<rparr>, \<lparr>blocked = False, visited = False\<rparr>,
                          \<lparr>blocked = False, visited = False\<rparr>]],
                width = 3, height = 1, playerX = 0, playerY = 0, started = True,
                finished = False, won = False, visitedCount = 1, totalCells = 3 \<rparr>,
       broadcasts = [\<lparr> levelId = 0,
                board = [[\<lparr>blocked = False, visited = True\<rparr>, \<lparr>blocked = False, visited = False\<rparr>,
                          \<lparr>blocked = False, visited = False\<rparr>]],
                width = 3, height = 1, playerX = 0, playerY = 0, started = True,
                finished = False, won = False, visitedCount = 1, totalCells = 3 \<rparr>] \<rparr>"
  by code_simp

lemma scenario_win:
  "fst (executeMove ''right'' (demo_started 0 0 0)) = Moved True True 2 0 3 3"
  by code_simp

lemma scenario_blocked:
  "executeMove ''right'' (demo_started 1 0 0) = (Failure NoMovement, demo_started 1 0 0)"
  by code_simp

lemma constructor_token_throws:
  "\<not> cardinal ''constructor'' \<and>
   executeMove ''constructor'' (demo_started 0 0 0) = (TypeError, demo_started 0 0 0)"
  by code_simp

section \<open>The slide algorithm\<close>

text \<open>
  Claim C1. In a started, unfinished game a move with one of the four direction tokens
  slides along the unit vector of the token: \<open>(0, -1)\<close> for \<^verbatim>\<open>up\<close>, \<open>(0, 1)\<close> for \<^verbatim>\<open>down\<close>,
  \<open>(-1, 0)\<close> for \<^verbatim>\<open>left\<close> and \<open>(1, 0)\<close> for \<^verbatim>\<open>right\<close>. With \<open>(dx, dy)\<close> that vector there is a
  number \<open>k\<close> such that each of the cells \<open>1, ..., k\<close> steps ahead of the player is in bounds,
  not blocked and not visited, and the cell \<open>k + 1\<close> steps ahead is not. With \<open>k = 0\<close> no
  cell is entered, the move fails and the player stays where it is. Otherwise the move
  succeeds and leaves the player \<open>k\<close> cells ahead, on the last cell entered, with
  \<^verbatim>\<open>visitedCount\<close> raised by \<open>k\<close>; in the board exactly the \<open>k\<close> cells entered have been set
  to visited and every other cell is as before. The cell that stopped the slide is not
  entered. The flags \<^verbatim>\<open>finished\<close> and \<^verbatim>\<open>won\<close> are set by the checks after the slide.
\<close>

theorem move_slides:
  assumes "wellformed (game s)" and "started (game s)" and "\<not> finished (game s)"
    and "cardinal direction"
  shows "\<exists>dx dy.
      (direction, dx, dy) \<in> {(''up'', 0, - 1), (''down'', 0, 1), (''left'', - 1, 0), (''right'', 1, 0)} \<and>
      (\<exists>k. (\<forall>i\<in>{1..k}. enterable (game s) (playerX (game s) + int i * dx)
                                        (playerY (game s) + int i * dy)) \<and>
            \<not> enterable (game s) (playerX (game s) + int (Suc k) * dx)
                                  (playerY (game s) + int (Suc k) * dy) \<and>
            (k = 0 \<longrightarrow> executeMove direction s = (Failure NoMovement, s)) \<and>
            (0 < k \<longrightarrow>
               (\<exists>f w. executeMove direction s =
                  (Moved f w (playerX (game s) + int k * dx) (playerY (game s) + int k * dy)
                     (visitedCount (game s) + int k) (totalCells (game s)),
                   broadcastState
                     (s\<lparr>game := (entered (game s) dx dy k)\<lparr>finished := f, won := w\<rparr>\<rparr>)))) \<and>
            (\<forall>x y. cellAt (board (entered (game s) dx dy k)) x y =
               (if \<exists>i\<in>{1..k}. x = playerX (game s) + int i * dx \<and>
                                y = playerY (game s) + int i * dy
                then map_option (\<lambda>c. c\<lparr>visited := True\<rparr>) (cellAt (board (game s)) x y)
                else cellAt (board (game s)) x y)))"
proof -
  from cardinal_offsets [OF assms(4)] obtain dx dy
    where vec: "(direction, dx, dy) \<in> {(''up'', 0, - 1), (''down'', 0, 1), (''left'', - 1, 0), (''right'', 1, 0)}"
      and d: "dx_of direction = Num dx" "dy_of direction = Num dy"
    by blast
  from executeMove_cardinal [OF assms(1-3) d] obtain k
    where run: "\<forall>i\<in>{1..k}. enterable (game s) (playerX (game s) + int i * dx)
                                         (playerY (game s) + int i * dy)"
    and stop: "\<not> enterable (game s) (playerX (game s) + int (Suc k) * dx)
                                   (playerY (game s) + int (Suc k) * dy)"
    and res: "executeMove direction s =
               (if k = 0 then (Failure NoMovement, s)
                else let g' = settle (entered (game s) dx dy k)
                     in (Moved (finished g') (won g') (playerX g') (playerY g')
                           (visitedCount g') (totalCells g'),
                         broadcastState (s\<lparr>game := g'\<rparr>)))"
    by blast
  let ?g' = "settle (entered (game s) dx dy k)"
  have moved: "executeMove direction s =
      (Moved (finished ?g') (won ?g') (playerX (game s) + int k * dx) (playerY (game s) + int k * dy)
         (visitedCount (game s) + int k) (totalCells (game s)),
       broadcastState (s\<lparr>game := ?g'\<rparr>))" if "0 < k"
    using res that by (simp add: Let_def)
  have "\<exists>f w. executeMove direction s =
      (Moved f w (playerX (game s) + int k * dx) (playerY (game s) + int k * dy)
         (visitedCount (game s) + int k) (totalCells (game s)),
       broadcastState (s\<lparr>game := (entered (game s) dx dy k)\<lparr>finished := f, won := w\<rparr>\<rparr>))"
    if "0 < k"
  proof (intro exI)
    show "executeMove direction s =
      (Moved (finished ?g') (won ?g') (playerX (game s) + int k * dx) (playerY (game s) + int k * dy)
         (visitedCount (game s) + int k) (totalCells (game s)),
       broadcastState (s\<lparr>game := (entered (game s) dx dy k)\<lparr>finished := finished ?g', won := won ?g'\<rparr>\<rparr>))"
      using moved [OF that] by (simp only: settle_as_update [symmetric])
  qed
  moreover have "executeMove direction s = (Failure NoMovement, s)" if "k = 0"
    using res that by simp
  moreover have "\<forall>i\<in>{1..k}. cellAt (board (game s)) (playerX (game s) + int i * dx)
      (playerY (game s) + int i * dy) \<noteq> None"
    using run by (fastforce simp: enterable_def split: option.splits)
  from cellAt_entered [OF this]
  have "\<forall>x y. cellAt (board (entered (game s) dx dy k)) x y =
      (if \<exists>i\<in>{1..k}. x = playerX (game s) + int i * dx \<and> y = playerY (game s) + int i * dy
       then map_option (\<lambda>c. c\<lparr>visited := True\<rparr>) (cellAt (board (game s)) x y)
       else cellAt (board (game s)) x y)"
    by blast
  ultimately have slides: "(\<exists>k. (\<forall>i\<in>{1..k}. enterable (game s) (playerX (game s) + int i * dx)
                                       (playerY (game s) + int i * dy)) \<and>
           \<not> enterable (game s) (playerX (game s) + int (Suc k) * dx)
                                 (playerY (game s) + int (Suc k) * dy) \<and>
           (k = 0 \<longrightarrow> executeMove direction s = (Failure NoMovement, s)) \<and>
           (0 < k \<longrightarrow>
              (\<exists>f w. executeMove direction s =
                 (Moved f w (playerX (game s) + int k * dx) (playerY (game s) + int k * dy)
                    (visitedCount (game s) + int k) (totalCells (game s)),
                  broadcastState
                    (s\<lparr>game := (entered (game s) dx dy k)\<lparr>finished := f, won := w\<rparr>\<rparr>)))) \<and>
           (\<forall>x y. cellAt (board (entered (game s) dx dy k)) x y =
              (if \<exists>i\<in>{1..k}. x = playerX (game s) + int i * dx \<and>
                               y = playerY (game s) + int i * dy
               then map_option (\<lambda>c. c\<lparr>visited := True\<rparr>) (cellAt (board (game s)) x y)
               else cellAt (board (game s)) x y)))"
    using run stop by (intro exI [of _ k]) blast
  from vec slides show ?thesis
    by (intro exI [of _ dx] exI [of _ dy] conjI)
qed

theorem move_slides_witness:
  "wellformed (game (demo_started 3 1 1)) \<and> started (game (demo_started 3 1 1)) \<and> \<not> finished (game (demo_started 3 1 1)) \<and>
   cardinal ''up'' \<and> cardinal ''down'' \<and> cardinal ''left'' \<and> cardinal ''right'' \<and>
   (\<exists>k. (\<forall>i\<in>{1..k}. enterable (game (demo_started 3 1 1)) (playerX (game (demo_started 3 1 1)) + int i * 0)
                                     (playerY (game (demo_started 3 1 1)) + int i * (- 1))) \<and>
         \<not> enterable (game (demo_started 3 1 1)) (playerX (game (demo_started 3 1 1)) + int (Suc k) * 0)
                               (playerY (game (demo_started 3 1 1)) + int (Suc k) * (- 1)) \<and>
         (k = 0 \<longrightarrow> executeMove ''up'' (demo_started 3 1 1) = (Failure NoMovement, (demo_started 3 1 1))) \<and>
         (0 < k \<longrightarrow>
            (\<exists>f w. executeMove ''up'' (demo_started 3 1 1) =
               (Moved f w (playerX (game (demo_started 3 1 1)) + int k * 0) (playerY (game (demo_started 3 1 1)) + int k * (- 1))
                  (visitedCount (game (demo_started 3 1 1)) + int k) (totalCells (game (demo_started 3 1 1))),
                broadcastState
                  ((demo_started 3 1 1)\<lparr>game := (entered (game (demo_started 3 1 1)) 0 (- 1) k)\<lparr>finished := f, won := w\<rparr>\<rparr>)))) \<and>
         (\<forall>x y. cellAt (board (entered (game (demo_started 3 1 1)) 0 (- 1) k)) x y =
            (if \<exists>i\<in>{1..k}. x = playerX (game (demo_started 3 1 1)) + int i * 0 \<and>
                             y = playerY (game (demo_started 3 1 1)) + int i * (- 1)
             then map_option (\<lambda>c. c\<lparr>visited := True\<rparr>) (cellAt (board (game (demo_started 3 1 1))) x y)
             else cellAt (board (game (demo_started 3 1 1))) x y))) \<and>
   (\<exists>k. (\<forall>i\<in>{1..k}. enterable (game (demo_started 3 1 1)) (playerX (game (demo_started 3 1 1)) + int i * 0)
                                     (playerY (game (demo_started 3 1 1)) + int i * 1)) \<and>
         \<not> enterable (game (demo_started 3 1 1)) (playerX (game (demo_started 3 1 1)) + int (Suc k) * 0)
                               (playerY (game (demo_started 3 1 1)) + int (Suc k) * 1) \<and>
         (k = 0 \<longrightarrow> executeMove ''down'' (demo_started 3 1 1) = (Failure NoMovement, (demo_started 3 1 1))) \<and>
         (0 < k \<longrightarrow>
            (\<exists>f w. executeMove ''down'' (demo_started 3 1 1) =
               (Moved f w (playerX (game (demo_started 3 1 1)) + int k * 0) (playerY (game (demo_started 3 1 1)) + int k * 1)
                  (visitedCount (game (demo_started 3 1 1)) + int k) (totalCells (game (demo_started 3 1 1))),
                broadcastState
                  ((demo_started 3 1 1)\<lparr>game := (entered (game (demo_started 3 1 1)) 0 1 k)\<lparr>finished := f, won := w\<rparr>\<rparr>)))) \<and>
         (\<forall>x y. cellAt (board (entered (game (demo_started 3 1 1)) 0 1 k)) x y =
            (if \<exists>i\<in>{1..k}. x = playerX (game (demo_started 3 1 1)) + int i * 0 \<and>
                             y = playerY (game (demo_started 3 1 1)) + int i * 1
             then map_option (\<lambda>c. c\<lparr>visited := True\<rparr>) (cellAt (board (game (demo_started 3 1 1))) x y)
             else cellAt (board (game (demo_started 3 1 1))) x y))) \<and>
   (\<exists>k. (\<forall>i\<in>{1..k}. enterable (game (demo_started 3 1 1)) (playerX (game (demo_started 3 1 1)) + int i * (- 1))
                                     (playerY (game (demo_started 3 1 1)) + int i * 0)) \<and>
         \<not> enterable (game (demo_started 3 1 1)) (playerX (game (demo_started 3 1 1)) + int (Suc k) * (- 1))
                               (playerY (game (demo_started 3 1 1)) + int (Suc k) * 0) \<and>
         (k = 0 \<longrightarrow> executeMove ''left'' (demo_started 3 1 1) = (Failure NoMovement, (demo_started 3 1 1))) \<and>
         (0 < k \<longrightarrow>
            (\<exists>f w. executeMove ''left'' (demo_started 3 1 1) =
               (Moved f w (playerX (game (demo_started 3 1 1)) + int k * (- 1)) (playerY (game (demo_started 3 1 1)) + int k * 0)
                  (visitedCount (game (demo_started 3 1 1)) + int k) (totalCells (game (demo_started 3 1 1))),
                broadcastState
                  ((demo_started 3 1 1)\<lparr>game := (entered (game (demo_started 3 1 1)) (- 1) 0 k)\<lparr>finished := f, won := w\<rparr>\<rparr>)))) \<and>
         (\<forall>x y. cellAt (board (entered (game (demo_started 3 1 1)) (- 1) 0 k)) x y =
            (if \<exists>i\<in>{1..k}. x = playerX (game (demo_started 3 1 1)) + int i * (- 1) \<and>
                             y = playerY (game (demo_started 3 1 1)) + int i * 0
             then map_option (\<lambda>c. c\<lparr>visited := True\<rparr>) (cellAt (board (game (demo_started 3 1 1))) x y)
             else cellAt (board (game (demo_started 3 1 1))) x y))) \<and>
   (\<exists>k. (\<forall>i\<in>{1..k}. enterable (game (demo_started 3 1 1)) (playerX (game (demo_started 3 1 1)) + int i * 1)
                                     (playerY (game (demo_started 3 1 1)) + int i * 0)) \<and>
         \<not> enterable (game (demo_started 3 1 1)) (playerX (game (demo_started 3 1 1)) + int (Suc k) * 1)
                               (playerY (game (demo_started 3 1 1)) + int (Suc k) * 0) \<and>
         (k = 0 \<longrightarrow> executeMove ''right'' (demo_started 3 1 1) = (Failure NoMovement, (demo_started 3 1 1))) \<and>
         (0 < k \<longrightarrow>
            (\<exists>f w. executeMove ''right'' (demo_started 3 1 1) =
               (Moved f w (playerX (game (demo_started 3 1 1)) + int k * 1) (playerY (game (demo_started 3 1 1)) + int k * 0)
                  (visitedCount (game (demo_started 3 1 1)) + int k) (totalCells (game (demo_started 3 1 1))),
                broadcastState
                  ((demo_started 3 1 1)\<lparr>game := (entered (game (demo_started 3 1 1)) 1 0 k)\<lparr>finished := f, won := w\<rparr>\<rparr>)))) \<and>
         (\<forall>x y. cellAt (board (entered (game (demo_started 3 1 1)) 1 0 k)) x y =
            (if \<exists>i\<in>{1..k}. x = playerX (game (demo_started 3 1 1)) + int i * 1 \<and>
                             y = playerY (game (demo_started 3 1 1)) + int i * 0
             then map_option (\<lambda>c. c\<lparr>visited := True\<rparr>) (cellAt (board (game (demo_started 3 1 1))) x y)
             else cellAt (board (game (demo_started 3 1 1))) x y))) \<and>
   fst (executeMove ''up'' (demo_started 3 1 1)) = Moved False False 1 0 2 5 \<and>
   fst (executeMove ''down'' (demo_started 3 1 1)) = Failure NoMovement \<and>
   fst (executeMove ''left'' (demo_started 3 1 1)) = Failure NoMovement \<and>
   fst (executeMove ''right'' (demo_started 3 1 1)) = Moved False False 2 1 2 5"
proof -
  have h: "wellformed (game (demo_started 3 1 1))" "started (game (demo_started 3 1 1))" "\<not> finished (game (demo_started 3 1 1))"
    by code_simp+
  have c: "cardinal ''up''" "cardinal ''down''" "cardinal ''left''" "cardinal ''right''"
    by (simp_all add: cardinal_def)
  have up: "(\<exists>k. (\<forall>i\<in>{1..k}. enterable (game (demo_started 3 1 1)) (playerX (game (demo_started 3 1 1)) + int i * 0)
                                       (playerY (game (demo_started 3 1 1)) + int i * (- 1))) \<and>
           \<not> enterable (game (demo_started 3 1 1)) (playerX (game (demo_started 3 1 1)) + int (Suc k) * 0)
                                 (playerY (game (demo_started 3 1 1)) + int (Suc k) * (- 1)) \<and>
           (k = 0 \<longrightarrow> executeMove ''up'' (demo_started 3 1 1) = (Failure NoMovement, (demo_started 3 1 1))) \<and>
           (0 < k \<longrightarrow>
              (\<exists>f w. executeMove ''up'' (demo_started 3 1 1) =
                 (Moved f w (playerX (game (demo_started 3 1 1)) + int k * 0) (playerY (game (demo_started 3 1 1)) + int k * (- 1))
                    (visitedCount (game (demo_started 3 1 1)) + int k) (totalCells (game (demo_started 3 1 1))),
                  broadcastState
                    ((demo_started 3 1 1)\<lparr>game := (entered (game (demo_started 3 1 1)) 0 (- 1) k)\<lparr>finished := f, won := w\<rparr>\<rparr>)))) \<and>
           (\<forall>x y. cellAt (board (entered (game (demo_started 3 1 1)) 0 (- 1) k)) x y =
              (if \<exists>i\<in>{1..k}. x = playerX (game (demo_started 3 1 1)) + int i * 0 \<and>
                               y = playerY (game (demo_started 3 1 1)) + int i * (- 1)
               then map_option (\<lambda>c. c\<lparr>visited := True\<rparr>) (cellAt (board (game (demo_started 3 1 1))) x y)
               else cellAt (board (game (demo_started 3 1 1))) x y)))"
    by (rule offsets_of_token(1) [OF move_slides [OF h c(1)] refl])
  have down: "(\<exists>k. (\<forall>i\<in>{1..k}. enterable (game (demo_started 3 1 1)) (playerX (game (demo_started 3 1 1)) + int i * 0)
                                       (playerY (game (demo_started 3 1 1)) + int i * 1)) \<and>
           \<not> enterable (game (demo_started 3 1 1)) (playerX (game (demo_started 3 1 1)) + int (Suc k) * 0)
                                 (playerY (game (demo_started 3 1 1)) + int (Suc k) * 1) \<and>
           (k = 0 \<longrightarrow> executeMove ''down'' (demo_started 3 1 1) = (Failure NoMovement, (demo_started 3 1 1))) \<and>
           (0 < k \<longrightarrow>
              (\<exists>f w. executeMove ''down'' (demo_started 3 1 1) =
                 (Moved f w (playerX (game (demo_started 3 1 1)) + int k * 0) (playerY (game (demo_started 3 1 1)) + int k * 1)
                    (visitedCount (game (demo_started 3 1 1)) + int k) (totalCells (game (demo_started 3 1 1))),
                  broadcastState
                    ((demo_started 3 1 1)\<lparr>game := (entered (game (demo_started 3 1 1)) 0 1 k)\<lparr>finished := f, won := w\<rparr>\<rparr>)))) \<and>
           (\<forall>x y. cellAt (board (entered (game (demo_started 3 1 1)) 0 1 k)) x y =
              (if \<exists>i\<in>{1..k}. x = playerX (game (demo_started 3 1 1)) + int i * 0 \<and>
                               y = playerY (game (demo_started 3 1 1)) + int i * 1
               then map_option (\<lambda>c. c\<lparr>visited := True\<rparr>) (cellAt (board (game (demo_started 3 1 1))) x y)
               else cellAt (board (game (demo_started 3 1 1))) x y)))"
    by (rule offsets_of_token(2) [OF move_slides [OF h c(2)] refl])
  have left: "(\<exists>k. (\<forall>i\<in>{1..k}. enterable (game (demo_started 3 1 1)) (playerX (game (demo_started 3 1 1)) + int i * (- 1))
                                       (playerY (game (demo_started 3 1 1)) + int i * 0)) \<and>
           \<not> enterable (game (demo_started 3 1 1)) (playerX (game (demo_started 3 1 1)) + int (Suc k) * (- 1))
                                 (playerY (game (demo_started 3 1 1)) + int (Suc k) * 0) \<and>
           (k = 0 \<longrightarrow> executeMove ''left'' (demo_started 3 1 1) = (Failure NoMovement, (demo_started 3 1 1))) \<and>
           (0 < k \<longrightarrow>
              (\<exists>f w. executeMove ''left'' (demo_started 3 1 1) =
                 (Moved f w (playerX (game (demo_started 3 1 1)) + int k * (- 1)) (playerY (game (demo_started 3 1 1)) + int k * 0)
                    (visitedCount (game (demo_started 3 1 1)) + int k) (totalCells (game (demo_started 3 1 1))),
                  broadcastState
                    ((demo_started 3 1 1)\<lparr>game := (entered (game (demo_started 3 1 1)) (- 1) 0 k)\<lparr>finished := f, won := w\<rparr>\<rparr>)))) \<and>
           (\<forall>x y. cellAt (board (entered (game (demo_started 3 1 1)) (- 1) 0 k)) x y =
              (if \<exists>i\<in>{1..k}. x = playerX (game (demo_started 3 1 1)) + int i * (- 1) \<and>
                               y = playerY (game (demo_started 3 1 1)) + int i * 0
               then map_option (\<lambda>c. c\<lparr>visited := True\<rparr>) (cellAt (board (game (demo_started 3 1 1))) x y)
               else cellAt (board (game (demo_started 3 1 1))) x y)))"
    by (rule offsets_of_token(3) [OF move_slides [OF h c(3)] refl])
  have right: "(\<exists>k. (\<forall>i\<in>{1..k}. enterable (game (demo_started 3 1 1)) (playerX (game (demo_started 3 1 1)) + int i * 1)
                                       (playerY (game (demo_started 3 1 1)) + int i * 0)) \<and>
           \<not> enterable (game (demo_started 3 1 1)) (playerX (game (demo_started 3 1 1)) + int (Suc k) * 1)
                                 (playerY (game (demo_started 3 1 1)) + int (Suc k) * 0) \<and>
           (k = 0 \<longrightarrow> executeMove ''right'' (demo_started 3 1 1) = (Failure NoMovement, (demo_started 3 1 1))) \<and>
           (0 < k \<longrightarrow>
              (\<exists>f w. executeMove ''right'' (demo_started 3 1 1) =
                 (Moved f w (playerX (game (demo_started 3 1 1)) + int k * 1) (playerY (game (demo_started 3 1 1)) + int k * 0)
                    (visitedCount (game (demo_started 3 1 1)) + int k) (totalCells (game (demo_started 3 1 1))),
                  broadcastState
                    ((demo_started 3 1 1)\<lparr>game := (entered (game (demo_started 3 1 1)) 1 0 k)\<lparr>finished := f, won := w\<rparr>\<rparr>)))) \<and>
           (\<forall>x y. cellAt (board (entered (game (demo_started 3 1 1)) 1 0 k)) x y =
              (if \<exists>i\<in>{1..k}. x = playerX (game (demo_started 3 1 1)) + int i * 1 \<and>
                               y = playerY (game (demo_started 3 1 1)) + int i * 0
               then map_option (\<lambda>c. c\<lparr>visited := True\<rparr>) (cellAt (board (game (demo_started 3 1 1))) x y)
               else cellAt (board (game (demo_started 3 1 1))) x y)))"
    by (rule offsets_of_token(4) [OF move_slides [OF h c(4)] refl])
  have run: "fst (executeMove ''up'' (demo_started 3 1 1)) = Moved False False 1 0 2 5"
    "fst (executeMove ''down'' (demo_started 3 1 1)) = Failure NoMovement"
    "fst (executeMove ''left'' (demo_started 3 1 1)) = Failure NoMovement"
    "fst (executeMove ''right'' (demo_started 3 1 1)) = Moved False False 2 1 2 5"
    by code_simp+
  from h c up down left right run show ?thesis by (intro conjI)
qed

section \<open>Winning\<close>

text \<open>
  Claim C2. After a successful move from a state the server can be in, \<^verbatim>\<open>won\<close> is true if and
  only if \<^verbatim>\<open>visitedCount\<close> equals \<^verbatim>\<open>totalCells\<close>; the reply carries the same flag. A won
  game is finished, and in a finished game every move, whatever its token, fails with
  \<open>NotActive\<close> and returns the server unchanged, so the state stays until a level is loaded.
\<close>
theorem won_iff_all_visited:
  assumes "consistent (game s)"
    and "executeMove direction s = (Moved f w px py vc tc, s')"
  shows "(won (game s') \<longleftrightarrow> visitedCount (game s') = totalCells (game s')) \<and>
         w = won (game s') \<and>
         (won (game s') \<longrightarrow>
            finished (game s') \<and> (\<forall>d. executeMove d s' = (Failure NotActive, s')))"
proof -
  from assms(1) have wf: "wellformed (game s)" and wonfin: "won (game s) \<longrightarrow> finished (game s)"
    by (simp_all add: consistent_def)
  from executeMove_MovedD [OF wf assms(2)] obtain dx dy k
    where active: "started (game s)" "\<not> finished (game s)"
      and s': "s' = broadcastState (s\<lparr>game := settle (entered (game s) dx dy k)\<rparr>)"
      and w: "w = won (game s')"
    by blast
  let ?g1 = "entered (game s) dx dy k"
  from active wonfin have nw: "\<not> won ?g1" by simp
  have g': "game s' = settle ?g1" by (simp add: s')
  have "won (game s') \<longleftrightarrow> visitedCount (game s') = totalCells (game s')"
    using settle_won [OF nw] by (simp add: g' del: entered_fields)
  moreover have "finished (game s')" if "won (game s')"
    using that nw settle_finished_won [of ?g1] by (simp add: g')
  ultimately show ?thesis
    using w executeMove_inactive [of s'] by blast
qed

theorem won_iff_all_visited_witness:
  "consistent (game (demo_started 0 0 0)) \<and>
   executeMove ''right'' (demo_started 0 0 0) =
     (Moved True True 2 0 3 3, snd (executeMove ''right'' (demo_started 0 0 0))) \<and>
   (won (game (snd (executeMove ''right'' (demo_started 0 0 0)))) \<longleftrightarrow>
      visitedCount (game (snd (executeMove ''right'' (demo_started 0 0 0)))) =
      totalCells (game (snd (executeMove ''right'' (demo_started 0 0 0))))) \<and>
   won (game (snd (executeMove ''right'' (demo_started 0 0 0)))) \<and>
   finished (game (snd (executeMove ''right'' (demo_started 0 0 0)))) \<and>
   (\<forall>d. executeMove d (snd (executeMove ''right'' (demo_started 0 0 0))) =
          (Failure NotActive, snd (executeMove ''right'' (demo_started 0 0 0))))"
proof -
  have h1: "consistent (game (demo_started 0 0 0))"
    by code_simp
  have h2: "executeMove ''right'' (demo_started 0 0 0) =
     (Moved True True 2 0 3 3, snd (executeMove ''right'' (demo_started 0 0 0)))"
    by code_simp
  from won_iff_all_visited [OF h1 h2] h1 h2 show ?thesis by blast
qed

section \<open>Getting stuck\<close>




section \<open>A move that cannot start\<close>

text \<open>
  Claim C4. In a started, unfinished game a move in one of the four directions whose first
  target cell is out of bounds, blocked or visited fails with \<open>NoMovement\<close> and returns the
  server as it was: the game is unchanged and nothing is broadcast.
\<close>
theorem no_movement_changes_nothing:
  assumes "started (game s)" and "\<not> finished (game s)"
    and "dx_of direction = Num dx" and "dy_of direction = Num dy"
    and "playerX (game s) + dx < 0 \<or> playerX (game s) + dx \<ge> width (game s) \<or>
         playerY (game s) + dy < 0 \<or> playerY (game s) + dy \<ge> height (game s) \<or>
         (\<exists>c. cellAt (board (game s)) (playerX (game s) + dx) (playerY (game s) + dy) = Some c \<and>
              (blocked c \<or> visited c))"
  shows "executeMove direction s = (Failure NoMovement, s)"
proof -
  have "slide dx dy (game s) False = (True, game s, False)"
    using assms(5) by (rule slide_blocked)
  with assms(1-4) show ?thesis
    by (simp add: executeMove_def)
qed

theorem no_movement_changes_nothing_witness:
  "started (game (demo_started 1 0 0)) \<and> \<not> finished (game (demo_started 1 0 0)) \<and>
   dx_of ''right'' = Num 1 \<and> dy_of ''right'' = Num 0 \<and>
   (\<exists>c. cellAt (board (game (demo_started 1 0 0))) (playerX (game (demo_started 1 0 0)) + 1)
          (playerY (game (demo_started 1 0 0)) + 0) = Some c \<and> (blocked c \<or> visited c)) \<and>
   executeMove ''right'' (demo_started 1 0 0) = (Failure NoMovement, demo_started 1 0 0)"
proof -
  have h: "started (game (demo_started 1 0 0))" "\<not> finished (game (demo_started 1 0 0))"
    "dx_of ''right'' = Num 1" "dy_of ''right'' = Num 0"
    by code_simp+
  have c: "cellAt (board (game (demo_started 1 0 0))) (playerX (game (demo_started 1 0 0)) + 1)
      (playerY (game (demo_started 1 0 0)) + 0) = Some \<lparr>blocked = True, visited = True\<rparr>"
    by code_simp
  then have b: "\<exists>c. cellAt (board (game (demo_started 1 0 0))) (playerX (game (demo_started 1 0 0)) + 1)
          (playerY (game (demo_started 1 0 0)) + 0) = Some c \<and> (blocked c \<or> visited c)"
    by simp
  from no_movement_changes_nothing [OF h] b h show ?thesis by blast
qed

section \<open>Unknown direction tokens\<close>

text \<open>
  Claim C5, as the code has it. A token that is none of the four directions and names no
  property of \<^verbatim>\<open>Object.prototype\<close> is rejected with \<open>InvalidDirection\<close> in a started,
  unfinished game; in any other state the guard on the state comes first and the move fails
  with \<open>NotActive\<close>. The server is unchanged in both cases. The claim for every state fails
  on a game that has not started, where the token \<^verbatim>\<open>diagonal\<close> gives \<open>NotActive\<close>.
\<close>
theorem unknown_token_rejected:
  assumes "\<not> cardinal direction" and "direction \<notin> set object_prototype_keys"
  shows "executeMove direction s =
     (if started (game s) \<and> \<not> finished (game s) then (Failure InvalidDirection, s)
      else (Failure NotActive, s))"
proof (cases "started (game s) \<and> \<not> finished (game s)")
  case True
  from assms have "dx_of direction = Undefined" by (simp add: dx_of_Undefined_iff)
  with True show ?thesis by (simp add: executeMove_undefined)
next
  case False
  then show ?thesis by (simp add: executeMove_inactive)
qed

theorem unknown_token_rejected_witness:
  "\<not> cardinal ''diagonal'' \<and> ''diagonal'' \<notin> set object_prototype_keys \<and>
   executeMove ''diagonal'' (demo_started 0 0 0) = (Failure InvalidDirection, demo_started 0 0 0)"
proof -
  have h: "\<not> cardinal ''diagonal''" "''diagonal'' \<notin> set object_prototype_keys"
    by code_simp+
  have a: "started (game (demo_started 0 0 0)) \<and> \<not> finished (game (demo_started 0 0 0))"
    by code_simp
  from unknown_token_rejected [OF h, of "demo_started 0 0 0"] a h show ?thesis by simp
qed

theorem unknown_token_rejected_counterexample:
  "\<not> cardinal ''diagonal'' \<and>
   executeMove ''diagonal'' (demo_loaded 0) = (Failure NotActive, demo_loaded 0) \<and>
   fst (executeMove ''diagonal'' (demo_loaded 0)) \<noteq> Failure InvalidDirection"
  by code_simp

section \<open>The checks of startGame\<close>

text \<open>
  Claim C6. \<^verbatim>\<open>startGame\<close> checks in this order: a started game gives \<open>AlreadyStarted\<close>,
  finished or not; then a position outside the board gives \<open>OutOfBounds\<close>; then a blocked
  cell gives \<open>BlockedCell\<close>. Otherwise it succeeds, puts the player on \<open>(x, y)\<close>, sets
  \<^verbatim>\<open>started\<close>, assigns 1 to \<^verbatim>\<open>visitedCount\<close>, sets that cell to visited and leaves every
  other cell and field alone, and broadcasts the new state. Every failure returns the
  server unchanged.
\<close>
theorem startGame_checks_in_order:
  assumes "wellformed (game s)"
  shows "(started (game s) \<longrightarrow> startGame x y s = (Failure AlreadyStarted, s)) \<and>
    (\<not> started (game s) \<and> (x < 0 \<or> x \<ge> width (game s) \<or> y < 0 \<or> y \<ge> height (game s)) \<longrightarrow>
       startGame x y s = (Failure OutOfBounds, s)) \<and>
    (\<not> started (game s) \<and> 0 \<le> x \<and> x < width (game s) \<and> 0 \<le> y \<and> y < height (game s) \<longrightarrow>
       (\<exists>c. cellAt (board (game s)) x y = Some c \<and>
          (blocked c \<longrightarrow> startGame x y s = (Failure BlockedCell, s)) \<and>
          (\<not> blocked c \<longrightarrow>
             (\<exists>b. (let g' = (game s)\<lparr> playerX := x, playerY := y, started := True,
                                      board := b, visitedCount := 1 \<rparr>
                   in startGame x y s =
                        (GameStarted, \<lparr> game = g', broadcasts = broadcasts s @ [g'] \<rparr>)) \<and>
                  cellAt b x y = Some (c\<lparr>visited := True\<rparr>) \<and>
                  (\<forall>x' y'. (x', y') \<noteq> (x, y) \<longrightarrow> cellAt b x' y' = cellAt (board (game s)) x' y') \<and>
                  map length b = map length (board (game s)))))) \<and>
    (\<forall>e s'. startGame x y s = (Failure e, s') \<longrightarrow> s' = s)"
proof (intro conjI impI allI)
  assume "started (game s)"
  then show "startGame x y s = (Failure AlreadyStarted, s)" by (simp add: startGame_def)
next
  assume "\<not> started (game s) \<and> (x < 0 \<or> x \<ge> width (game s) \<or> y < 0 \<or> y \<ge> height (game s))"
  then show "startGame x y s = (Failure OutOfBounds, s)" by (auto simp: startGame_def)
next
  assume a: "\<not> started (game s) \<and> 0 \<le> x \<and> x < width (game s) \<and> 0 \<le> y \<and> y < height (game s)"
  with wellformed_cellAt [OF assms, of x y] obtain c
    where c: "cellAt (board (game s)) x y = Some c" by auto
  let ?b = "markVisited (board (game s)) x y"
  have "startGame x y s = (Failure BlockedCell, s)" if "blocked c"
    using a c that by (simp add: startGame_def)
  moreover have "let g' = (game s)\<lparr> playerX := x, playerY := y, started := True,
                                      board := ?b, visitedCount := 1 \<rparr>
                   in startGame x y s =
                        (GameStarted, \<lparr> game = g', broadcasts = broadcasts s @ [g'] \<rparr>)"
    if "\<not> blocked c"
    using a c that by (simp add: startGame_def broadcastState_def Let_def)
  moreover have "cellAt ?b x y = Some (c\<lparr>visited := True\<rparr>)"
    by (simp add: cellAt_markVisited [OF c])
  moreover have "\<forall>x' y'. (x', y') \<noteq> (x, y) \<longrightarrow> cellAt ?b x' y' = cellAt (board (game s)) x' y'"
    by (simp add: cellAt_markVisited [OF c])
  moreover have "map length ?b = map length (board (game s))"
    by simp
  ultimately show "\<exists>c. cellAt (board (game s)) x y = Some c \<and>
          (blocked c \<longrightarrow> startGame x y s = (Failure BlockedCell, s)) \<and>
          (\<not> blocked c \<longrightarrow>
             (\<exists>b. (let g' = (game s)\<lparr> playerX := x, playerY := y, started := True,
                                      board := b, visitedCount := 1 \<rparr>
                   in startGame x y s =
                        (GameStarted, \<lparr> game = g', broadcasts = broadcasts s @ [g'] \<rparr>)) \<and>
                  cellAt b x y = Some (c\<lparr>visited := True\<rparr>) \<and>
                  (\<forall>x' y'. (x', y') \<noteq> (x, y) \<longrightarrow> cellAt b x' y' = cellAt (board (game s)) x' y') \<and>
                  map length b = map length (board (game s))))"
    using c by (intro exI [of _ c] conjI impI exI [of _ ?b]) blast+
next
  fix e s'
  assume "startGame x y s = (Failure e, s')"
  then show "s' = s"
    by (auto simp: startGame_def Let_def split: if_splits option.splits)
qed

theorem startGame_checks_in_order_witness:
  "wellformed (game (demo_loaded 3)) \<and> wellformed (game (demo_started 3 1 1)) \<and>
   startGame 0 0 (demo_started 3 1 1) = (Failure AlreadyStarted, demo_started 3 1 1) \<and>
   startGame 3 0 (demo_loaded 3) = (Failure OutOfBounds, demo_loaded 3) \<and>
   (\<exists>c. cellAt (board (game (demo_loaded 3))) 0 1 = Some c \<and> blocked c \<and>
        startGame 0 1 (demo_loaded 3) = (Failure BlockedCell, demo_loaded 3))"
proof -
  have wf: "wellformed (game (demo_loaded 3))" "wellformed (game (demo_started 3 1 1))"
    by code_simp+
  have a1: "started (game (demo_started 3 1 1))"
    by code_simp
  have a2: "\<not> started (game (demo_loaded 3)) \<and>
      (3 < (0::int) \<or> 3 \<ge> width (game (demo_loaded 3)) \<or> (0::int) < 0 \<or> 0 \<ge> height (game (demo_loaded 3)))"
    by code_simp
  have a3: "\<not> started (game (demo_loaded 3)) \<and> (0::int) \<le> 0 \<and> 0 < width (game (demo_loaded 3)) \<and>
      (0::int) \<le> 1 \<and> 1 < height (game (demo_loaded 3))"
    by code_simp
  have c: "cellAt (board (game (demo_loaded 3))) 0 1 = Some \<lparr>blocked = True, visited = True\<rparr>"
    by code_simp
  from startGame_checks_in_order [OF wf(2), of 0 0] a1
  have "startGame 0 0 (demo_started 3 1 1) = (Failure AlreadyStarted, demo_started 3 1 1)"
    by blast
  moreover from startGame_checks_in_order [OF wf(1), of 3 0] a2
  have "startGame 3 0 (demo_loaded 3) = (Failure OutOfBounds, demo_loaded 3)"
    by blast
  moreover from startGame_checks_in_order [OF wf(1), of 0 1] a3 c
  have "startGame 0 1 (demo_loaded 3) = (Failure BlockedCell, demo_loaded 3)"
    by auto
  ultimately show ?thesis using wf c by simp
qed

section \<open>What loadLevel does\<close>

text \<open>
  Claim C7. \<^verbatim>\<open>loadLevel\<close> returns false and leaves the game untouched when the catalogue has
  no such level. Otherwise it returns true and every field of the game is set from the
  level alone: the id, the dimensions, a board of \<open>height\<close> rows of \<open>width\<close> cells in which the
  cell at \<open>(x, y)\<close> is blocked and visited when the character at \<open>y * width + x\<close> is \<^verbatim>\<open>X\<close> and
  neither otherwise, the player at \<open>(-1, -1)\<close>, the three flags false, \<^verbatim>\<open>visitedCount\<close> zero
  and \<^verbatim>\<open>totalCells\<close> the number of cells of the board that are not blocked.
\<close>
theorem loadLevel_replaces_state:
  "(levels lid = None \<longrightarrow> loadLevel levels lid g = (False, g)) \<and>
   (\<forall>lv. levels lid = Some lv \<longrightarrow>
      (\<exists>b. loadLevel levels lid g =
              (True, \<lparr> levelId = lid, board = b, width = level.width lv, height = level.height lv,
                       playerX = - 1, playerY = - 1, started = False, finished = False,
                       won = False, visitedCount = 0,
                       totalCells = int (length (filter (\<lambda>c. \<not> blocked c) (concat b))) \<rparr>) \<and>
            length b = nat (level.height lv) \<and>
            (\<forall>row \<in> set b. length row = nat (level.width lv)) \<and>
            (\<forall>x y. 0 \<le> x \<and> x < level.width lv \<and> 0 \<le> y \<and> y < level.height lv \<longrightarrow>
               cellAt b x y =
                 Some (if charAt (boardStr lv) (y * level.width lv + x) = Some CHR ''X''
                       then \<lparr> blocked = True, visited = True \<rparr>
                       else \<lparr> blocked = False, visited = False \<rparr>))))"
proof (intro conjI allI impI)
  assume "levels lid = None"
  then show "loadLevel levels lid g = (False, g)" by (simp add: loadLevel_def)
next
  fix lv
  assume lv: "levels lid = Some lv"
  let ?b = "parseBoard (boardStr lv) (level.width lv) (level.height lv)"
  have "loadLevel levels lid g =
      (True, \<lparr> levelId = lid, board = ?b, width = level.width lv, height = level.height lv,
               playerX = - 1, playerY = - 1, started = False, finished = False,
               won = False, visitedCount = 0,
               totalCells = int (length (filter (\<lambda>c. \<not> blocked c) (concat ?b))) \<rparr>)"
    using lv by (simp add: loadLevel_def Let_def countPlayableCells_count count_cells_concat)
  moreover have "cellAt ?b x y =
      Some (if charAt (boardStr lv) (y * level.width lv + x) = Some CHR ''X''
            then \<lparr> blocked = True, visited = True \<rparr> else \<lparr> blocked = False, visited = False \<rparr>)"
    if "0 \<le> x \<and> x < level.width lv \<and> 0 \<le> y \<and> y < level.height lv" for x y
    using that by (simp add: cellAt_parseBoard parseCell_def Let_def)
  ultimately show "\<exists>b. loadLevel levels lid g =
              (True, \<lparr> levelId = lid, board = b, width = level.width lv, height = level.height lv,
                       playerX = - 1, playerY = - 1, started = False, finished = False,
                       won = False, visitedCount = 0,
                       totalCells = int (length (filter (\<lambda>c. \<not> blocked c) (concat b))) \<rparr>) \<and>
            length b = nat (level.height lv) \<and>
            (\<forall>row \<in> set b. length row = nat (level.width lv)) \<and>
            (\<forall>x y. 0 \<le> x \<and> x < level.width lv \<and> 0 \<le> y \<and> y < level.height lv \<longrightarrow>
               cellAt b x y =
                 Some (if charAt (boardStr lv) (y * level.width lv + x) = Some CHR ''X''
                       then \<lparr> blocked = True, visited = True \<rparr>
                       else \<lparr> blocked = False, visited = False \<rparr>))"
    by (intro exI [of _ ?b]) (simp add: set_parseBoard_length)
qed

theorem loadLevel_replaces_state_witness:
  "demo_levels 7 = None \<and>
   loadLevel demo_levels 7 (game (demo_started 0 0 0)) = (False, game (demo_started 0 0 0)) \<and>
   demo_levels 1 = Some \<lparr> level.width = 3, level.height = 1, boardStr = ''.X.'' \<rparr> \<and>
   (\<exists>b. loadLevel demo_levels 1 (game (demo_started 0 0 0)) =
           (True, \<lparr> levelId = 1, board = b, width = 3, height = 1,
                    playerX = - 1, playerY = - 1, started = False, finished = False,
                    won = False, visitedCount = 0,
                    totalCells = int (length (filter (\<lambda>c. \<not> blocked c) (concat b))) \<rparr>) \<and>
         length b = nat 1 \<and>
         cellAt b 1 0 = Some \<lparr> blocked = True, visited = True \<rparr> \<and>
         cellAt b 2 0 = Some \<lparr> blocked = False, visited = False \<rparr>)"
proof -
  have none: "demo_levels 7 = None"
    by (simp add: demo_levels_def)
  have some: "demo_levels 1 = Some \<lparr> level.width = 3, level.height = 1, boardStr = ''.X.'' \<rparr>"
    by (simp add: demo_levels_def)
  have chars: "charAt ''.X.'' 1 = Some CHR ''X''" "charAt ''.X.'' 2 \<noteq> Some CHR ''X''"
    by (simp_all add: charAt_def)
  note inst = loadLevel_replaces_state [of demo_levels _ "game (demo_started 0 0 0)"]
  from inst [of 7] none
  have "loadLevel demo_levels 7 (game (demo_started 0 0 0)) = (False, game (demo_started 0 0 0))"
    by blast
  moreover from inst [of 1] some obtain b where
    b: "loadLevel demo_levels 1 (game (demo_started 0 0 0)) =
           (True, \<lparr> levelId = 1, board = b, width = 3, height = 1,
                    playerX = - 1, playerY = - 1, started = False, finished = False,
                    won = False, visitedCount = 0,
                    totalCells = int (length (filter (\<lambda>c. \<not> blocked c) (concat b))) \<rparr>)"
       "length b = nat 1"
    and cells: "\<forall>x y. 0 \<le> x \<and> x < 3 \<and> 0 \<le> y \<and> y < 1 \<longrightarrow>
         cellAt b x y = Some (if charAt ''.X.'' (y * 3 + x) = Some CHR ''X''
                       then \<lparr> blocked = True, visited = True \<rparr>
                       else \<lparr> blocked = False, visited = False \<rparr>)"
    by fastforce
  from cells [rule_format, of 1 0] cells [rule_format, of 2 0] chars
  have "cellAt b 1 0 = Some \<lparr> blocked = True, visited = True \<rparr>"
    "cellAt b 2 0 = Some \<lparr> blocked = False, visited = False \<rparr>"
    by simp_all
  ultimately show ?thesis using none some b by blast
qed

section \<open>The visited count\<close>

text \<open>
  Claim C8. From a state the server can be in, a successful \<^verbatim>\<open>startGame\<close> and a successful
  move each leave \<^verbatim>\<open>visitedCount\<close> strictly greater than before and equal to the number of
  cells of the board that are visited and not blocked. The start cell is one of them: the
  start marks it, and a move leaves every visited cell as it was. No call of \<^verbatim>\<open>startGame\<close>
  or \<^verbatim>\<open>executeMove\<close>, successful or not, lowers the count.
\<close>
theorem visitedCount_grows:
  assumes "consistent (game s)"
  shows "(\<forall>x y s'. startGame x y s = (GameStarted, s') \<longrightarrow>
            visitedCount (game s) < visitedCount (game s') \<and>
            visitedCount (game s') =
              int (length (filter (\<lambda>c. visited c \<and> \<not> blocked c) (concat (board (game s'))))) \<and>
            (\<exists>c. cellAt (board (game s')) x y = Some c \<and> visited c \<and> \<not> blocked c)) \<and>
         (\<forall>d f w px py vc tc s'. executeMove d s = (Moved f w px py vc tc, s') \<longrightarrow>
            visitedCount (game s) < visitedCount (game s') \<and>
            visitedCount (game s') =
              int (length (filter (\<lambda>c. visited c \<and> \<not> blocked c) (concat (board (game s'))))) \<and>
            (\<forall>x y c. cellAt (board (game s)) x y = Some c \<and> visited c \<longrightarrow>
               cellAt (board (game s')) x y = Some c)) \<and>
         (\<forall>x y. visitedCount (game s) \<le> visitedCount (game (snd (startGame x y s)))) \<and>
         (\<forall>d. visitedCount (game s) \<le> visitedCount (game (snd (executeMove d s))))"
proof (intro conjI allI impI)
  fix x y s'
  assume st: "startGame x y s = (GameStarted, s')"
  from startGame_StartedD [OF st] obtain c
    where ns: "\<not> started (game s)" and c: "cellAt (board (game s)) x y = Some c" "\<not> blocked c"
      and s': "s' = broadcastState (s\<lparr>game := (game s)\<lparr> playerX := x, playerY := y, started := True,
             board := markVisited (board (game s)) x y, visitedCount := 1 \<rparr>\<rparr>)"
    by blast
  from assms ns have "visitedCount (game s) = 0" by (simp add: consistent_def)
  then show "visitedCount (game s) < visitedCount (game s')" by (simp add: s')
  from consistent_startGame [OF assms, of x y] st
  show "visitedCount (game s') =
      int (length (filter (\<lambda>c. visited c \<and> \<not> blocked c) (concat (board (game s')))))"
    by (simp add: consistent_def count_cells_concat)
  from c show "\<exists>c. cellAt (board (game s')) x y = Some c \<and> visited c \<and> \<not> blocked c"
    by (simp add: s' cellAt_markVisited [OF c(1)])
next
  fix d f w px py vc tc s'
  assume mv: "executeMove d s = (Moved f w px py vc tc, s')"
  from assms have wf: "wellformed (game s)" by (simp add: consistent_def)
  from executeMove_MovedD [OF wf mv] obtain dx dy k
    where k: "0 < k" and s': "s' = broadcastState (s\<lparr>game := settle (entered (game s) dx dy k)\<rparr>)"
      and run: "\<forall>i\<in>{1..k}. enterable (game s) (playerX (game s) + int i * dx)
                                        (playerY (game s) + int i * dy)"
    by blast
  from k s' show "visitedCount (game s) < visitedCount (game s')" by simp
  {
    fix x y c
    assume c: "cellAt (board (game s)) x y = Some c \<and> visited c"
    from run have "\<forall>i\<in>{1..k}. cellAt (board (game s)) (playerX (game s) + int i * dx)
        (playerY (game s) + int i * dy) \<noteq> None"
      by (fastforce simp: enterable_def split: option.splits)
    from cellAt_entered [OF this, of x y] c
    have "cellAt (board (entered (game s) dx dy k)) x y = Some c"
      by (cases c) (auto split: if_splits)
    then show "cellAt (board (game s')) x y = Some c" by (simp add: s')
  }
  from consistent_executeMove [OF assms, of d] mv
  show "visitedCount (game s') =
      int (length (filter (\<lambda>c. visited c \<and> \<not> blocked c) (concat (board (game s')))))"
    by (simp add: consistent_def count_cells_concat)
next
  fix x y
  show "visitedCount (game s) \<le> visitedCount (game (snd (startGame x y s)))"
  proof (cases "fst (startGame x y s) = GameStarted")
    case True
    then have "startGame x y s = (GameStarted, snd (startGame x y s))"
      by (simp add: prod_eq_iff)
    from startGame_StartedD [OF this] assms show ?thesis
      by (auto simp: consistent_def)
  next
    case False
    then show ?thesis by (simp add: startGame_not_started)
  qed
next
  fix d
  from assms have "wellformed (game s)" by (simp add: consistent_def)
  then show "visitedCount (game s) \<le> visitedCount (game (snd (executeMove d s)))"
    by (cases rule: executeMove_cases [where direction = d]) (simp_all add: Let_def)
qed

theorem visitedCount_grows_witness:
  "consistent (game (demo_loaded 0)) \<and>
   startGame 0 0 (demo_loaded 0) = (GameStarted, demo_started 0 0 0) \<and>
   visitedCount (game (demo_loaded 0)) < visitedCount (game (demo_started 0 0 0)) \<and>
   visitedCount (game (demo_started 0 0 0)) =
     int (length (filter (\<lambda>c. visited c \<and> \<not> blocked c) (concat (board (game (demo_started 0 0 0)))))) \<and>
   consistent (game (demo_started 0 0 0)) \<and>
   executeMove ''right'' (demo_started 0 0 0) =
     (Moved True True 2 0 3 3, snd (executeMove ''right'' (demo_started 0 0 0))) \<and>
   visitedCount (game (demo_started 0 0 0)) <
     visitedCount (game (snd (executeMove ''right'' (demo_started 0 0 0)))) \<and>
   visitedCount (game (snd (executeMove ''right'' (demo_started 0 0 0)))) =
     int (length (filter (\<lambda>c. visited c \<and> \<not> blocked c)
        (concat (board (game (snd (executeMove ''right'' (demo_started 0 0 0))))))))"
proof -
  have h1: "consistent (game (demo_loaded 0))"
    by code_simp
  have a1: "startGame 0 0 (demo_loaded 0) = (GameStarted, demo_started 0 0 0)"
    by code_simp
  have h2: "consistent (game (demo_started 0 0 0))"
    by code_simp
  have a2: "executeMove ''right'' (demo_started 0 0 0) =
     (Moved True True 2 0 3 3, snd (executeMove ''right'' (demo_started 0 0 0)))"
    by code_simp
  from visitedCount_grows [OF h1] a1
  have "visitedCount (game (demo_loaded 0)) < visitedCount (game (demo_started 0 0 0)) \<and>
   visitedCount (game (demo_started 0 0 0)) =
     int (length (filter (\<lambda>c. visited c \<and> \<not> blocked c) (concat (board (game (demo_started 0 0 0))))))"
    by blast
  moreover from visitedCount_grows [OF h2] a2
  have "visitedCount (game (demo_started 0 0 0)) <
     visitedCount (game (snd (executeMove ''right'' (demo_started 0 0 0)))) \<and>
   visitedCount (game (snd (executeMove ''right'' (demo_started 0 0 0)))) =
     int (length (filter (\<lambda>c. visited c \<and> \<not> blocked c)
        (concat (board (game (snd (executeMove ''right'' (demo_started 0 0 0))))))))"
    by blast
  ultimately show ?thesis using h1 a1 h2 a2 by blast
qed

section \<open>Resetting twice\<close>

text \<open>
  Claim C9. When the catalogue has the current level, a second reset changes nothing in the
  game: after one reset the level id is the one before, the dimensions are the level's,
  every cell is visited exactly when it is blocked, the player is at \<open>(-1, -1)\<close>, the flags
  are false and \<^verbatim>\<open>visitedCount\<close> is zero, and the reset after it gives the same game. Each
  reset broadcasts the state.
\<close>
theorem reset_idempotent:
  assumes "levels (levelId (game s)) = Some lv"
  shows "game (api_reset levels (api_reset levels s)) = game (api_reset levels s) \<and>
     levelId (game (api_reset levels s)) = levelId (game s) \<and>
     width (game (api_reset levels s)) = level.width lv \<and>
     height (game (api_reset levels s)) = level.height lv \<and>
     (\<forall>row \<in> set (board (game (api_reset levels s))). \<forall>c \<in> set row. visited c = blocked c) \<and>
     playerX (game (api_reset levels s)) = - 1 \<and> playerY (game (api_reset levels s)) = - 1 \<and>
     \<not> started (game (api_reset levels s)) \<and> \<not> finished (game (api_reset levels s)) \<and>
     \<not> won (game (api_reset levels s)) \<and> visitedCount (game (api_reset levels s)) = 0 \<and>
     broadcasts (api_reset levels s) = broadcasts s @ [game (api_reset levels s)]"
proof -
  let ?b = "parseBoard (boardStr lv) (level.width lv) (level.height lv)"
  have g1: "game (api_reset levels s) =
      \<lparr> levelId = levelId (game s), board = ?b, width = level.width lv, height = level.height lv,
        playerX = - 1, playerY = - 1, started = False, finished = False, won = False,
        visitedCount = 0, totalCells = countPlayableCells ?b \<rparr>"
    using assms by (simp add: game_api_reset loadLevel_def Let_def)
  then have "levels (levelId (game (api_reset levels s))) = Some lv"
    using assms by simp
  then have "game (api_reset levels (api_reset levels s)) = game (api_reset levels s)"
    by (simp add: game_api_reset [of levels "api_reset levels s"] loadLevel_def Let_def g1)
  moreover have "\<forall>row \<in> set ?b. \<forall>c \<in> set row. visited c = blocked c"
    using parseBoard_visited_blocked by blast
  moreover have "broadcasts (api_reset levels s) = broadcasts s @ [game (api_reset levels s)]"
    by (simp add: api_reset_def broadcastState_def)
  ultimately show ?thesis by (simp add: g1)
qed

theorem reset_idempotent_witness:
  "demo_levels (levelId (game (demo_started 3 1 1))) =
     Some \<lparr> level.width = 3, level.height = 2, boardStr = ''...X..'' \<rparr> \<and>
   game (api_reset demo_levels (api_reset demo_levels (demo_started 3 1 1))) =
     game (api_reset demo_levels (demo_started 3 1 1)) \<and>
   levelId (game (api_reset demo_levels (demo_started 3 1 1))) = 3 \<and>
   width (game (api_reset demo_levels (demo_started 3 1 1))) = 3 \<and>
   height (game (api_reset demo_levels (demo_started 3 1 1))) = 2 \<and>
   playerX (game (api_reset demo_levels (demo_started 3 1 1))) = - 1 \<and>
   \<not> started (game (api_reset demo_levels (demo_started 3 1 1))) \<and>
   visitedCount (game (api_reset demo_levels (demo_started 3 1 1))) = 0"
proof -
  have h: "demo_levels (levelId (game (demo_started 3 1 1))) =
     Some \<lparr> level.width = 3, level.height = 2, boardStr = ''...X..'' \<rparr>"
    by code_simp
  have "levelId (game (demo_started 3 1 1)) = 3"
    by code_simp
  with reset_idempotent [of demo_levels "demo_started 3 1 1", OF h] h show ?thesis by simp
qed

section \<open>Levels with a single open cell\<close>

text \<open>
  Claim C10. \<^verbatim>\<open>startGame\<close> never touches \<^verbatim>\<open>finished\<close> or \<^verbatim>\<open>won\<close>. On a freshly loaded level
  with \<^verbatim>\<open>totalCells\<close> equal to 1 a successful start leaves \<^verbatim>\<open>visitedCount\<close> equal to
  \<^verbatim>\<open>totalCells\<close> and both flags false; after it a move in any of the four directions fails
  with \<open>NoMovement\<close>, and a call of \<^verbatim>\<open>executeMove\<close> with any token returns the server
  unchanged. No run of starts, moves, resets and loads of the same level reaches a won
  game.
\<close>
theorem single_cell_level_never_won:
  assumes "levels lid = Some lv"
    and "totalCells (snd (loadLevel levels lid g0)) = 1"
    and "game s = snd (loadLevel levels lid g0)"
  shows "(\<forall>x y. finished (game (snd (startGame x y s))) = finished (game s) \<and>
                won (game (snd (startGame x y s))) = won (game s)) \<and>
         (\<forall>x y s1. startGame x y s = (GameStarted, s1) \<longrightarrow>
            visitedCount (game s1) = 1 \<and> totalCells (game s1) = 1 \<and>
            \<not> finished (game s1) \<and> \<not> won (game s1) \<and>
            (\<forall>d. cardinal d \<longrightarrow> executeMove d s1 = (Failure NoMovement, s1)) \<and>
            (\<forall>d. snd (executeMove d s1) = s1)) \<and>
         (\<forall>reqs. (\<forall>r \<in> set reqs. on_level lid r) \<longrightarrow> \<not> won (game (run levels reqs s)))"
proof (intro conjI allI impI)
  show "finished (game (snd (startGame x y s))) = finished (game s)"
    "won (game (snd (startGame x y s))) = won (game s)" for x y
    using startGame_flags [of x y s] by simp_all
  have lone: "lone_cell (game s)"
    using lone_cell_loadLevel [of levels lid lv g0, OF assms(1,2)] assms(3) by simp
  have lid: "levelId (game s) = lid"
    using assms(1,3) by (simp add: loadLevel_def Let_def)
  {
    fix x y s1
    assume st: "startGame x y s = (GameStarted, s1)"
    from lone_cell_startGame [OF lone, of x y] st have lone1: "lone_cell (game s1)" by simp
    from startGame_StartedD [OF st]
    have s1: "s1 = broadcastState (s\<lparr>game := (game s)\<lparr> playerX := x, playerY := y, started := True,
             board := markVisited (board (game s)) x y, visitedCount := 1 \<rparr>\<rparr>)"
      by blast
    then have started1: "started (game s1)" by simp
    show "visitedCount (game s1) = 1" by (simp add: s1)
    show "totalCells (game s1) = 1" using assms(2,3) by (simp add: s1)
    from lone1 show "\<not> finished (game s1)" "\<not> won (game s1)" by (simp_all add: lone_cell_def)
    show "snd (executeMove d s1) = s1" for d
      by (rule lone_cell_executeMove [OF lone1])
    show "executeMove d s1 = (Failure NoMovement, s1)" if "cardinal d" for d
    proof -
      from that obtain dx dy where "dx_of d = Num dx" "dy_of d = Num dy"
        using dx_of_Num_iff dy_of_Num_iff by blast
      from lone_cell_no_step [OF lone1 started1 this] show ?thesis .
    qed
  }
  fix reqs
  assume "\<forall>r \<in> set reqs. on_level lid r"
  from lone_cell_run [of levels lid lv g0 s reqs, OF assms(1,2) lone lid this] show "\<not> won (game (run levels reqs s))"
    by (simp add: lone_cell_def)
qed

theorem single_cell_level_never_won_witness:
  "demo_levels 4 = Some \<lparr> level.width = 3, level.height = 3, boardStr = ''XXXX.XXXX'' \<rparr> \<and>
   totalCells (snd (loadLevel demo_levels 4 initialState)) = 1 \<and>
   game (demo_loaded 4) = snd (loadLevel demo_levels 4 initialState) \<and>
   startGame 1 1 (demo_loaded 4) = (GameStarted, demo_started 4 1 1) \<and>
   visitedCount (game (demo_started 4 1 1)) = 1 \<and> totalCells (game (demo_started 4 1 1)) = 1 \<and>
   \<not> finished (game (demo_started 4 1 1)) \<and> \<not> won (game (demo_started 4 1 1)) \<and>
   executeMove ''up'' (demo_started 4 1 1) = (Failure NoMovement, demo_started 4 1 1) \<and>
   snd (executeMove ''sideways'' (demo_started 4 1 1)) = demo_started 4 1 1 \<and>
   \<not> won (game (run demo_levels
                   [Start 1 1, Move ''right'', Reset, Move ''up'', Start 1 1, Move ''down'']
                   (demo_loaded 4)))"
proof -
  have h1: "demo_levels 4 = Some \<lparr> level.width = 3, level.height = 3, boardStr = ''XXXX.XXXX'' \<rparr>"
    by (simp add: demo_levels_def)
  have h2: "totalCells (snd (loadLevel demo_levels 4 initialState)) = 1"
    by code_simp
  have h3: "game (demo_loaded 4) = snd (loadLevel demo_levels 4 initialState)"
    by (simp add: demo_loaded_def)
  have st: "startGame 1 1 (demo_loaded 4) = (GameStarted, demo_started 4 1 1)"
    by code_simp
  have up: "cardinal ''up''"
    by (simp add: cardinal_def)
  have reqs: "\<forall>r \<in> set [Start 1 1, Move ''right'', Reset, Move ''up'', Start 1 1, Move ''down''].
      on_level 4 r"
    by (simp add: on_level_def)
  note inst = single_cell_level_never_won
    [of demo_levels 4 "\<lparr> level.width = 3, level.height = 3, boardStr = ''XXXX.XXXX'' \<rparr>"
        initialState "demo_loaded 4", OF h1 h2 h3]
  from inst st up reqs h1 h2 h3 show ?thesis by blast
qed

end
